theory Spec2Isabelle
  imports
    Main
    "HOL-Library.AList"
    "HOL-Library.Char_ord"
    "HOL-Library.List_Lexorder"
    "HOL-Library.Multiset"
begin

section \<open>GTR, the Go Tiny Router: a shallow embedding of \<open>gtr.go\<close>\<close>

text \<open>
  The router decomposes a parsed URL into a \<open>Route\<close> (\<open>ParseRoute\<close>), scores a
  template route against a candidate route (\<open>RouteCompare\<close>), and keeps a table of
  registered templates (\<open>Register\<close>, \<open>Find\<close>).

  Conventions of the embedding:
  \<^item> A Go string is a byte sequence, here a \<open>string\<close> (a list of 8-bit characters).
    The order on strings is the byte-wise lexicographic one, as Go's \<open><\<close> on strings.
  \<^item> A Go map that the code ranges over (\<open>routeParams\<close>, \<open>queryParams\<close>, the
    \<open>url.Values\<close> that \<open>url.Query()\<close> returns) is an association list with pairwise
    distinct keys. The order of the list is the order in which \<open>range\<close> delivers the
    entries; Go leaves that order unspecified, so every statement below is proved for
    every order. \<open>len m\<close> is the length of the list, \<open>m[k]\<close> is \<open>index_map\<close>
    (the empty string for a missing key), \<open>v, ok := m[k]\<close> is \<open>map_of\<close>, and
    \<open>m[k] = v\<close> is \<open>AList.update\<close>.
  \<^item> The maps of the route table are never ranged over; they are partial functions.
    The table is the one that \<open>DefaultRouteTable\<close> creates, with both maps allocated;
    the zero \<open>RouteTable\<close>, whose maps are nil, is not modelled.
  \<^item> Go's \<open>int\<close> is modelled by \<open>int\<close>. The only arithmetic is the rank of
    \<open>RouteCompare\<close>, which is at most twice the number of entries of a map held in
    memory, so it cannot wrap around.
  \<^item> A \<open>*Route\<close> is a \<open>Route\<close> value: routes are never mutated after
    \<open>ParseRoute\<close> built them. The nil pointer is \<open>None\<close>.
  \<^item> \<open>crypto/sha256\<close> is not part of the program. The digest (the function from the
    bytes written to the bytes that \<open>Sum(nil)\<close> returns) is a parameter \<open>sha256\<close>
    of \<open>CreateHash\<close> and of everything that calls it.
  \<^item> \<open>net/url\<close> is not part of the program either. A parsed URL is a record of the
    fields the program reads, \<open>Host\<close>, \<open>Path\<close> and \<open>RawQuery\<close>, together with
    \<open>Query\<close>, the multi-map that the method \<open>url.Query()\<close> returns for it.
\<close>

subsection \<open>The functions of Go's standard library that the program calls\<close>

text \<open>\<open>len\<close> on a map.\<close>

definition len :: "('k \<times> 'v) list \<Rightarrow> int" where
  "len m = int (length m)"

text \<open>\<open>m[key]\<close> on a map with string values: the zero value for a missing key.\<close>

definition index_map :: "('k \<times> string) list \<Rightarrow> 'k \<Rightarrow> string" where
  "index_map m key = (case map_of m key of None \<Rightarrow> [] | Some v \<Rightarrow> v)"

text \<open>\<open>strings.Split(s, sep)\<close> for a separator of one byte: the pieces between the
  separators, \<open>n + 1\<close> pieces for \<open>n\<close> separators. \<open>piece\<close> holds the bytes of the
  current piece, last byte first.\<close>

fun Split_from :: "char \<Rightarrow> string \<Rightarrow> string \<Rightarrow> string list" where
  "Split_from sep piece [] = [rev piece]"
| "Split_from sep piece (c # s) =
     (if c = sep then rev piece # Split_from sep [] s
      else Split_from sep (c # piece) s)"

definition Split :: "string \<Rightarrow> char \<Rightarrow> string list" where
  "Split s sep = Split_from sep [] s"

text \<open>\<open>strings.HasPrefix(s, prefix)\<close>.\<close>

definition HasPrefix :: "string \<Rightarrow> string \<Rightarrow> bool" where
  "HasPrefix s pre = (length s \<ge> length pre \<and> take (length pre) s = pre)"

text \<open>\<open>strings.Join(elems, sep)\<close>.\<close>

fun Join :: "string list \<Rightarrow> string \<Rightarrow> string" where
  "Join [] sep = []"
| "Join [e] sep = e"
| "Join (e # es) sep = e @ sep @ Join es sep"

text \<open>\<open>sort.Slice(x, less)\<close>, with \<open>lt\<close> for \<open>less\<close>: a permutation of \<open>x\<close> in
  which no element is less than an earlier one. Sorting by insertion computes it.\<close>

fun insert_by :: "('a \<Rightarrow> 'a \<Rightarrow> bool) \<Rightarrow> 'a \<Rightarrow> 'a list \<Rightarrow> 'a list" where
  "insert_by lt x [] = [x]"
| "insert_by lt x (y # ys) =
     (if lt y x then y # insert_by lt x ys else x # y # ys)"

fun sort_Slice :: "('a \<Rightarrow> 'a \<Rightarrow> bool) \<Rightarrow> 'a list \<Rightarrow> 'a list" where
  "sort_Slice lt [] = []"
| "sort_Slice lt (x # xs) = insert_by lt x (sort_Slice lt xs)"

text \<open>\<open>hex.EncodeToString(src)\<close>: two lower-case hexadecimal digits for each byte.\<close>

definition hextable :: string where
  "hextable = ''0123456789abcdef''"

definition EncodeToString :: "string \<Rightarrow> string" where
  "EncodeToString src =
     concat (map (\<lambda>b. [hextable ! ((of_char b :: nat) div 16),
                       hextable ! ((of_char b :: nat) mod 16)]) src)"

subsection \<open>Data model\<close>

text \<open>The sentinel errors: \<open>RouterError\<close> is a string type with three constants.\<close>

type_synonym RouterError = string

definition HOST_NOT_REGISTERED :: RouterError where
  "HOST_NOT_REGISTERED = ''host not registered''"

definition NO_MATCH_FOUND :: RouterError where
  "NO_MATCH_FOUND = ''no match found''"

definition NO_URL_REGISTERED :: RouterError where
  "NO_URL_REGISTERED = ''no url registered''"

text \<open>\<open>url.Values\<close>, the type of \<open>url.Query()\<close>: each key with its values in the order
  in which they appear in the query.\<close>

type_synonym Values = "(string \<times> string list) list"

record URL =
  Host :: string
  Path :: string
  RawQuery :: string
  Query :: Values

record Route =
  host :: string
  routeParams :: "(int \<times> string) list"
  queryParams :: "(string \<times> string) list"
  hash :: string

text \<open>The route table. The configuration \<open>map[string]any\<close> is opaque to the program:
  it is a type parameter.\<close>

record 'c RouteTable =
  routes :: "int \<rightharpoonup> Route list"
  configs :: "string \<rightharpoonup> 'c"

text \<open>What a call can do besides returning: dereference a nil \<open>*Route\<close>.\<close>

datatype panic = NilPointerDereference

subsection \<open>\<open>CreateHash\<close>\<close>

definition CreateHash :: "(string \<Rightarrow> string) \<Rightarrow> URL \<Rightarrow> string" where
  "CreateHash sha256 url =
     (let buffer = Path url;
          buffer = (if length (RawQuery url) > 0 then buffer @ ''?'' @ RawQuery url
                    else buffer)
      in EncodeToString (sha256 buffer))"

subsection \<open>\<open>ParseRoute\<close>\<close>

text \<open>The first loop, over the pieces of the path with their indices.\<close>

fun ParseRoute_segments ::
  "int \<Rightarrow> string list \<Rightarrow> (int \<times> string) list \<Rightarrow> (int \<times> string) list" where
  "ParseRoute_segments index [] params = params"
| "ParseRoute_segments index (segment # rest) params =
     (if length segment = 0 then ParseRoute_segments (index + 1) rest params
      else if HasPrefix segment '':'' then
        ParseRoute_segments (index + 1) rest (AList.update index ''?'' params)
      else ParseRoute_segments (index + 1) rest (AList.update index segment params))"

text \<open>The second loop, over the entries of \<open>url.Query()\<close>. The comparison of
  \<open>sort.Slice\<close> is \<open>value[i] > value[j]\<close>.\<close>

fun ParseRoute_query :: "Values \<Rightarrow> (string \<times> string) list \<Rightarrow> (string \<times> string) list" where
  "ParseRoute_query [] params = params"
| "ParseRoute_query ((key, value) # rest) params =
     ParseRoute_query rest
       (AList.update key (Join (sort_Slice (\<lambda>a b. a > b) value) '','') params)"

definition ParseRoute :: "(string \<Rightarrow> string) \<Rightarrow> URL \<Rightarrow> Route" where
  "ParseRoute sha256 url =
     \<lparr> host = Host url,
       routeParams = ParseRoute_segments 0 (Split (Path url) CHR ''/'') [],
       queryParams = ParseRoute_query (Query url) [],
       hash = CreateHash sha256 url \<rparr>"

subsection \<open>\<open>RouteCompare\<close>\<close>

text \<open>The loop over the template's \<open>routeParams\<close>. \<open>rank = 0; break\<close> leaves the loop
  with rank 0.\<close>

fun RouteCompare_segments :: "(int \<times> string) list \<Rightarrow> Route \<Rightarrow> int \<Rightarrow> int" where
  "RouteCompare_segments [] route rank = rank"
| "RouteCompare_segments ((key, value) # rest) route rank =
     (if value = ''?'' then RouteCompare_segments rest route (rank + 1)
      else if value \<noteq> index_map (routeParams route) key then 0
      else RouteCompare_segments rest route (rank + 2))"

text \<open>The loop over the template's \<open>queryParams\<close>, and the \<open>return rank\<close> after it.\<close>

fun RouteCompare_query :: "(string \<times> string) list \<Rightarrow> Route \<Rightarrow> int \<Rightarrow> int" where
  "RouteCompare_query [] route rank = rank"
| "RouteCompare_query ((key, value) # rest) route rank =
     (case map_of (queryParams route) key of
        None \<Rightarrow> 0
      | Some val \<Rightarrow> if val \<noteq> value then 0 else RouteCompare_query rest route rank)"

definition RouteCompare :: "Route \<Rightarrow> Route \<Rightarrow> int" where
  "RouteCompare preferredRoute route =
     (if len (routeParams preferredRoute) \<noteq> len (routeParams route) then 0
      else RouteCompare_query (queryParams preferredRoute) route
             (RouteCompare_segments (routeParams preferredRoute) route 0))"

subsection \<open>The route table\<close>

text \<open>The table that the first call of \<open>DefaultRouteTable\<close> creates. Later calls return
  the same table; the embedding passes it explicitly.\<close>

definition DefaultRouteTable :: "'c RouteTable" where
  "DefaultRouteTable = \<lparr> routes = Map.empty, configs = Map.empty \<rparr>"

text \<open>\<open>Register\<close> returns the table after the call. \<open>rt.routes[len]\<close> of a missing
  bucket is the nil slice, to which \<open>append\<close> appends as to an empty one.\<close>

definition Register :: "(string \<Rightarrow> string) \<Rightarrow> URL \<Rightarrow> 'c \<Rightarrow> 'c RouteTable \<Rightarrow> 'c RouteTable" where
  "Register sha256 url conf rt =
     (let route = ParseRoute sha256 url;
          n = len (routeParams route)
      in case configs rt (hash route) of
           Some _ \<Rightarrow> rt
         | None \<Rightarrow>
             (let rt = rt\<lparr> configs := (configs rt)(hash route \<mapsto> conf) \<rparr>;
                  rt = (case routes rt n of
                          None \<Rightarrow> rt\<lparr> routes := (routes rt)(n \<mapsto> []) \<rparr>
                        | Some _ \<Rightarrow> rt)
              in rt\<lparr> routes := (routes rt)(n \<mapsto>
                   (case routes rt n of None \<Rightarrow> [] | Some bucket \<Rightarrow> bucket) @ [route]) \<rparr>))"

text \<open>The loop of \<open>Find\<close> over the bucket, with the best rank \<open>lrnk\<close> and the best
  template \<open>lrt\<close> so far.\<close>

fun Find_range :: "Route list \<Rightarrow> Route \<Rightarrow> int \<Rightarrow> Route option \<Rightarrow> int \<times> Route option" where
  "Find_range [] prt lrnk lrt = (lrnk, lrt)"
| "Find_range (url # rest) prt lrnk lrt =
     (let rnk = RouteCompare url prt
      in if rnk \<noteq> 0 then
           (if rnk > lrnk then Find_range rest prt rnk (Some url)
            else Find_range rest prt lrnk lrt)
         else Find_range rest prt lrnk lrt)"

text \<open>\<open>Find\<close> returns the pair \<open>(string, error)\<close>, the nil error being \<open>None\<close>, or
  panics.\<close>

definition Find ::
  "(string \<Rightarrow> string) \<Rightarrow> 'c RouteTable \<Rightarrow> URL \<Rightarrow> panic + (string \<times> RouterError option)" where
  "Find sha256 rt url =
     (if dom (routes rt) = {} then Inr ([], Some NO_URL_REGISTERED)
      else
        (let prt = ParseRoute sha256 url
         in case routes rt (len (routeParams prt)) of
              None \<Rightarrow> Inr ([], Some HOST_NOT_REGISTERED)
            | Some bucket \<Rightarrow>
                (case Find_range bucket prt 0 None of
                   (lrnk, lrt) \<Rightarrow>
                     if lrnk = 0 then Inr ([], Some NO_MATCH_FOUND)
                     else (case lrt of
                             None \<Rightarrow> Inl NilPointerDereference
                           | Some r \<Rightarrow> Inr (hash r, None)))))"

definition GetConfig :: "'c RouteTable \<Rightarrow> string \<Rightarrow> 'c option" where
  "GetConfig rt h = configs rt h"

subsection \<open>Example URLs and tables\<close>

text \<open>Parsed URLs, those of the package documentation among them, each with the value
  of \<open>url.Query()\<close> for it, and two tables built by \<open>Register\<close>. In the examples
  the digest is the identity function: no statement depends on what the digest computes.\<close>

definition url_users_template :: URL where
  "url_users_template =
     \<lparr> Host = ''www.abcdefg.com'', Path = ''/api/v1/users/:username/details'',
       RawQuery = ''type=cached'', Query = [(''type'', [''cached''])] \<rparr>"

definition url_ken_cached_json :: URL where
  "url_ken_cached_json =
     \<lparr> Host = ''www.abcdefg.com'', Path = ''/api/v1/users/ken/details'',
       RawQuery = ''type=cached&format=JSON'',
       Query = [(''type'', [''cached'']), (''format'', [''JSON''])] \<rparr>"

definition url_ken_cached :: URL where
  "url_ken_cached =
     \<lparr> Host = ''www.abcdefg.com'', Path = ''/api/v1/users/ken/details'',
       RawQuery = ''type=cached'', Query = [(''type'', [''cached''])] \<rparr>"

definition url_ken_json :: URL where
  "url_ken_json =
     \<lparr> Host = ''www.abcdefg.com'', Path = ''/api/v1/users/ken/details'',
       RawQuery = ''format=JSON'', Query = [(''format'', [''JSON''])] \<rparr>"

definition url_groups_cached :: URL where
  "url_groups_cached =
     \<lparr> Host = ''www.abcdefg.com'', Path = ''/api/v1/groups/ken/details'',
       RawQuery = ''type=cached'', Query = [(''type'', [''cached''])] \<rparr>"

definition url_ken :: URL where
  "url_ken =
     \<lparr> Host = ''www.abcdefg.com'', Path = ''/api/v1/users/ken/details'',
       RawQuery = [], Query = [] \<rparr>"

definition url_username :: URL where
  "url_username =
     \<lparr> Host = ''www.abcdefg.com'', Path = ''/api/v1/users/:username/details'',
       RawQuery = [], Query = [] \<rparr>"

definition url_a_b :: URL where
  "url_a_b = \<lparr> Host = [], Path = ''/:a/:b'', RawQuery = [], Query = [] \<rparr>"

definition url_x_y :: URL where
  "url_x_y = \<lparr> Host = [], Path = ''/x/y'', RawQuery = [], Query = [] \<rparr>"

definition url_x__y :: URL where
  "url_x__y = \<lparr> Host = [], Path = ''/x//y'', RawQuery = [], Query = [] \<rparr>"

definition url_x_b :: URL where
  "url_x_b = \<lparr> Host = [], Path = ''/x/:b'', RawQuery = [], Query = [] \<rparr>"

definition url_a_y :: URL where
  "url_a_y = \<lparr> Host = [], Path = ''/:a/y'', RawQuery = [], Query = [] \<rparr>"

definition url_ken_extra :: URL where
  "url_ken_extra =
     \<lparr> Host = ''www.abcdefg.com'', Path = ''/api/v1/users/ken/details/extra'',
       RawQuery = [], Query = [] \<rparr>"

definition url_a__b :: URL where
  "url_a__b = \<lparr> Host = [], Path = ''/a//b'', RawQuery = [], Query = [] \<rparr>"

definition url_tag_b_a :: URL where
  "url_tag_b_a =
     \<lparr> Host = [], Path = ''/items'', RawQuery = ''tag=b&tag=a'',
       Query = [(''tag'', [''b'', ''a''])] \<rparr>"

definition url_tag_a_b :: URL where
  "url_tag_a_b =
     \<lparr> Host = [], Path = ''/items'', RawQuery = ''tag=a&tag=b'',
       Query = [(''tag'', [''a'', ''b''])] \<rparr>"

definition table_users :: "string RouteTable" where
  "table_users = Register id url_users_template ''ttl'' DefaultRouteTable"

definition table_tie :: "string RouteTable" where
  "table_tie = Register id url_a_y ''second'' (Register id url_x_b ''first'' DefaultRouteTable)"

section \<open>The loops of the program\<close>

lemma RouteCompare_segments_mismatch:
  "(k, v) \<in> set xs \<Longrightarrow> v \<noteq> ''?'' \<Longrightarrow> v \<noteq> index_map (routeParams C) k \<Longrightarrow>
   RouteCompare_segments xs C rank = 0"
proof (induction xs arbitrary: rank)
  case Nil
  then show ?case by simp
next
  case (Cons e xs)
  obtain k' v' where e: "e = (k', v')" by (cases e)
  show ?case
  proof (cases "e = (k, v)")
    case True
    then show ?thesis using Cons.prems by simp
  next
    case False
    then have "(k, v) \<in> set xs" using Cons.prems by simp
    then have "RouteCompare_segments xs C r = 0" for r
      using Cons.prems by (intro Cons.IH)
    then show ?thesis by (simp add: e)
  qed
qed

lemma RouteCompare_segments_match:
  "\<forall>(k, v) \<in> set xs. v = ''?'' \<or> v = index_map (routeParams C) k \<Longrightarrow>
   RouteCompare_segments xs C rank =
     rank + int (length (filter (\<lambda>(k, v). v = ''?'') xs))
          + 2 * int (length (filter (\<lambda>(k, v). v \<noteq> ''?'') xs))"
proof (induction xs arbitrary: rank)
  case Nil
  then show ?case by simp
next
  case (Cons e xs)
  obtain k v where e: "e = (k, v)" by (cases e)
  have IH: "RouteCompare_segments xs C r =
     r + int (length (filter (\<lambda>(k, v). v = ''?'') xs))
       + 2 * int (length (filter (\<lambda>(k, v). v \<noteq> ''?'') xs))" for r
    using Cons.prems by (intro Cons.IH) simp
  have v: "v = ''?'' \<or> v = index_map (routeParams C) k"
    using Cons.prems by (simp add: e)
  show ?case
  proof (cases "v = ''?''")
    case True
    then show ?thesis by (simp add: e IH)
  next
    case False
    then show ?thesis using v by (simp add: e IH)
  qed
qed

lemma RouteCompare_query_eq:
  "RouteCompare_query xs C rank =
     (if \<forall>(k, v) \<in> set xs. map_of (queryParams C) k = Some v then rank else 0)"
proof (induction xs)
  case Nil
  show ?case by simp
next
  case (Cons e xs)
  obtain k v where e: "e = (k, v)" by (cases e)
  show ?case
  proof (cases "map_of (queryParams C) k")
    case None
    then show ?thesis by (simp add: e)
  next
    case (Some val)
    then show ?thesis using Cons.IH by (simp add: e)
  qed
qed

lemma RouteCompare_segments_nonneg:
  "0 \<le> rank \<Longrightarrow> 0 \<le> RouteCompare_segments xs C rank"
proof (induction xs arbitrary: rank)
  case Nil
  then show ?case by simp
next
  case (Cons e xs)
  obtain k v where e: "e = (k, v)" by (cases e)
  from Cons.prems have "0 \<le> rank + 1" "0 \<le> rank + 2" by simp_all
  then show ?case using Cons.IH by (simp add: e)
qed

lemma RouteCompare_nonneg: "0 \<le> RouteCompare T C"
proof -
  have "0 \<le> RouteCompare_segments (routeParams T) C 0"
    by (rule RouteCompare_segments_nonneg) simp
  then show ?thesis
    by (simp add: RouteCompare_def RouteCompare_query_eq)
qed

lemma RouteCompare_segments_cong:
  "\<forall>(k, v) \<in> set xs. v \<noteq> ''?'' \<longrightarrow>
      index_map (routeParams C') k = index_map (routeParams C) k \<Longrightarrow>
   RouteCompare_segments xs C' rank = RouteCompare_segments xs C rank"
proof (induction xs arbitrary: rank)
  case Nil
  then show ?case by simp
next
  case (Cons e xs)
  obtain k v where e: "e = (k, v)" by (cases e)
  have IH: "RouteCompare_segments xs C' r = RouteCompare_segments xs C r" for r
    using Cons.prems by (intro Cons.IH) simp
  have "v \<noteq> ''?'' \<longrightarrow> index_map (routeParams C') k = index_map (routeParams C) k"
    using Cons.prems by (simp add: e)
  then show ?case by (simp add: e IH)
qed

lemma RouteCompare_eq:
  "RouteCompare T C =
     (if len (routeParams T) = len (routeParams C)
         \<and> (\<forall>(k, v) \<in> set (routeParams T). v = ''?'' \<or> v = index_map (routeParams C) k)
         \<and> (\<forall>(k, v) \<in> set (queryParams T). map_of (queryParams C) k = Some v)
      then int (length (filter (\<lambda>(k, v). v = ''?'') (routeParams T)))
           + 2 * int (length (filter (\<lambda>(k, v). v \<noteq> ''?'') (routeParams T)))
      else 0)"
proof (cases "\<forall>(k, v) \<in> set (routeParams T). v = ''?'' \<or> v = index_map (routeParams C) k")
  case True
  then have "RouteCompare_segments (routeParams T) C 0 =
      int (length (filter (\<lambda>(k, v). v = ''?'') (routeParams T)))
      + 2 * int (length (filter (\<lambda>(k, v). v \<noteq> ''?'') (routeParams T)))"
    by (simp add: RouteCompare_segments_match)
  then show ?thesis using True
    by (simp add: RouteCompare_def RouteCompare_query_eq)
next
  case False
  then obtain k v where "(k, v) \<in> set (routeParams T)" "v \<noteq> ''?''"
    "v \<noteq> index_map (routeParams C) k" by blast
  then have "RouteCompare_segments (routeParams T) C 0 = 0"
    by (rule RouteCompare_segments_mismatch)
  then have "RouteCompare T C = 0"
    by (simp add: RouteCompare_def RouteCompare_query_eq)
  moreover have "\<not> (len (routeParams T) = len (routeParams C)
         \<and> (\<forall>(k, v) \<in> set (routeParams T). v = ''?'' \<or> v = index_map (routeParams C) k)
         \<and> (\<forall>(k, v) \<in> set (queryParams T). map_of (queryParams C) k = Some v))"
    using False by blast
  ultimately show ?thesis by (simp only: if_False)
qed


lemma slots_sum_list:
  "int (length (filter (\<lambda>(k, v). v = ''?'') xs))
     + 2 * int (length (filter (\<lambda>(k, v). v \<noteq> ''?'') xs))
   = sum_list (map (\<lambda>(k, v). if v = ''?'' then 1 else 2) xs)"
proof (induction xs)
  case Nil
  show ?case by simp
next
  case (Cons e xs)
  obtain k v where e: "e = (k, v)" by (cases e)
  show ?case
  proof (cases "v = ''?''")
    case True
    then show ?thesis using Cons.IH by (simp add: e)
  next
    case False
    then show ?thesis using Cons.IH by (simp add: e)
  qed
qed

lemma set_alist_split:
  assumes "distinct (map fst xs)" and "map_of xs pos = Some v"
  shows "set xs = insert (pos, v) {e \<in> set xs. fst e \<noteq> pos}"
proof -
  have "(pos, v) \<in> set xs" using assms(2) by (rule map_of_SomeD)
  moreover have "e = (pos, v)" if "e \<in> set xs" "fst e = pos" for e
  proof -
    have "map_of xs (fst e) = Some (snd e)"
      using assms(1) that(1) by (cases e) simp
    then show ?thesis using that(2) assms(2) by (cases e) simp
  qed
  ultimately show ?thesis by blast
qed

lemma sum_list_alist_split:
  fixes w :: "'k \<times> 'v \<Rightarrow> int"
  assumes "distinct (map fst xs)" and "map_of xs pos = Some v"
  shows "sum_list (map w xs) = w (pos, v) + sum w {e \<in> set xs. fst e \<noteq> pos}"
proof -
  have d: "distinct xs" using assms(1) by (rule distinct_map [THEN iffD1, THEN conjunct1])
  have "sum_list (map w xs) = sum w (set xs)"
    using d by (rule sum_list_distinct_conv_sum_set)
  also have "\<dots> = sum w (insert (pos, v) {e \<in> set xs. fst e \<noteq> pos})"
    using set_alist_split [OF assms] by simp
  also have "\<dots> = w (pos, v) + sum w {e \<in> set xs. fst e \<noteq> pos}"
    by (rule sum.insert) simp_all
  finally show ?thesis .
qed

lemma sum_list_alist_update:
  fixes w :: "'k \<times> 'v \<Rightarrow> int"
  assumes "distinct (map fst xs)" and "distinct (map fst ys)"
    and "map_of xs pos = Some v" and "map_of ys = (map_of xs)(pos \<mapsto> v')"
  shows "sum_list (map w xs) - w (pos, v) = sum_list (map w ys) - w (pos, v')"
proof -
  have ys: "map_of ys pos = Some v'" using assms(4) by simp
  have "e \<in> set xs \<longleftrightarrow> e \<in> set ys" if "fst e \<noteq> pos" for e
  proof -
    have "e \<in> set xs \<longleftrightarrow> map_of xs (fst e) = Some (snd e)"
      using assms(1) by (cases e) simp
    also have "\<dots> \<longleftrightarrow> map_of ys (fst e) = Some (snd e)"
      using that by (simp add: assms(4))
    also have "\<dots> \<longleftrightarrow> e \<in> set ys"
      using assms(2) by (cases e) simp
    finally show ?thesis .
  qed
  then have "{e \<in> set xs. fst e \<noteq> pos} = {e \<in> set ys. fst e \<noteq> pos}" by blast
  then show ?thesis
    using sum_list_alist_split [OF assms(1) assms(3), of w]
      sum_list_alist_split [OF assms(2) ys, of w] by simp
qed

lemma Split_users_template:
  "Split ''/api/v1/users/:username/details'' CHR ''/'' =
     [[], ''api'', ''v1'', ''users'', '':username'', ''details'']"
  by (simp add: Split_def)

lemma Split_users_ken:
  "Split ''/api/v1/users/ken/details'' CHR ''/'' =
     [[], ''api'', ''v1'', ''users'', ''ken'', ''details'']"
  by (simp add: Split_def)

lemma Split_groups_ken:
  "Split ''/api/v1/groups/ken/details'' CHR ''/'' =
     [[], ''api'', ''v1'', ''groups'', ''ken'', ''details'']"
  by (simp add: Split_def)

lemma routeParams_users_template:
  "routeParams (ParseRoute sha256 url_users_template) =
     [(1, ''api''), (2, ''v1''), (3, ''users''), (4, ''?''), (5, ''details'')]"
  "routeParams (ParseRoute sha256 url_username) =
     [(1, ''api''), (2, ''v1''), (3, ''users''), (4, ''?''), (5, ''details'')]"
  by (simp_all add: ParseRoute_def url_users_template_def url_username_def
      Split_users_template HasPrefix_def)

lemma routeParams_ken:
  "routeParams (ParseRoute sha256 url_ken_cached_json) =
     [(1, ''api''), (2, ''v1''), (3, ''users''), (4, ''ken''), (5, ''details'')]"
  "routeParams (ParseRoute sha256 url_ken_cached) =
     [(1, ''api''), (2, ''v1''), (3, ''users''), (4, ''ken''), (5, ''details'')]"
  "routeParams (ParseRoute sha256 url_ken_json) =
     [(1, ''api''), (2, ''v1''), (3, ''users''), (4, ''ken''), (5, ''details'')]"
  "routeParams (ParseRoute sha256 url_ken) =
     [(1, ''api''), (2, ''v1''), (3, ''users''), (4, ''ken''), (5, ''details'')]"
  by (simp_all add: ParseRoute_def url_ken_cached_json_def url_ken_cached_def
      url_ken_json_def url_ken_def Split_users_ken HasPrefix_def)

lemma routeParams_groups:
  "routeParams (ParseRoute sha256 url_groups_cached) =
     [(1, ''api''), (2, ''v1''), (3, ''groups''), (4, ''ken''), (5, ''details'')]"
  by (simp add: ParseRoute_def url_groups_cached_def Split_groups_ken HasPrefix_def)

lemma queryParams_examples:
  "queryParams (ParseRoute sha256 url_users_template) = [(''type'', ''cached'')]"
  "queryParams (ParseRoute sha256 url_ken_cached_json) =
     [(''type'', ''cached''), (''format'', ''JSON'')]"
  "queryParams (ParseRoute sha256 url_ken_cached) = [(''type'', ''cached'')]"
  "queryParams (ParseRoute sha256 url_ken_json) = [(''format'', ''JSON'')]"
  "queryParams (ParseRoute sha256 url_groups_cached) = [(''type'', ''cached'')]"
  "queryParams (ParseRoute sha256 url_ken) = []"
  "queryParams (ParseRoute sha256 url_username) = []"
  by (simp_all add: ParseRoute_def url_users_template_def url_ken_cached_json_def
      url_ken_cached_def url_ken_json_def url_groups_cached_def url_ken_def
      url_username_def)

lemma routeParams_a_b:
  "routeParams (ParseRoute sha256 url_a_b) = [(1, ''?''), (2, ''?'')]"
  "routeParams (ParseRoute sha256 url_x_y) = [(1, ''x''), (2, ''y'')]"
  "routeParams (ParseRoute sha256 url_x__y) = [(1, ''x''), (3, ''y'')]"
  by (simp_all add: ParseRoute_def url_a_b_def url_x_y_def url_x__y_def Split_def HasPrefix_def)

lemma queryParams_a_b:
  "queryParams (ParseRoute sha256 url_a_b) = []"
  "queryParams (ParseRoute sha256 url_x_y) = []"
  "queryParams (ParseRoute sha256 url_x__y) = []"
  by (simp_all add: ParseRoute_def url_a_b_def url_x_y_def url_x__y_def)

lemma RouteCompare_positive:
  assumes "0 < RouteCompare T C"
  shows "len (routeParams T) = len (routeParams C)
         \<and> (\<forall>(k, v) \<in> set (routeParams T). v = ''?'' \<or> v = index_map (routeParams C) k)
         \<and> (\<forall>(k, v) \<in> set (queryParams T). map_of (queryParams C) k = Some v)"
    (is ?P)
proof (rule ccontr)
  assume "\<not> ?P"
  then have "RouteCompare T C = 0"
    by (subst RouteCompare_eq) (rule if_not_P)
  with assms show False by simp
qed

lemma RouteCompare_positive_rank:
  assumes "0 < RouteCompare T C"
  shows "RouteCompare T C =
          int (length (filter (\<lambda>(k, v). v = ''?'') (routeParams T)))
          + 2 * int (length (filter (\<lambda>(k, v). v \<noteq> ''?'') (routeParams T)))"
  by (subst RouteCompare_eq) (rule if_P, rule RouteCompare_positive [OF assms])


lemma RouteCompare_ken_ken:
  "RouteCompare (ParseRoute sha256 url_ken) (ParseRoute sha256 url_ken) = 10"
  by (simp add: RouteCompare_def routeParams_ken queryParams_examples len_def index_map_def)

lemma RouteCompare_username_ken:
  "RouteCompare (ParseRoute sha256 url_username) (ParseRoute sha256 url_ken) = 9"
  by (simp add: RouteCompare_def routeParams_ken routeParams_users_template
      queryParams_examples len_def index_map_def)

lemma RouteCompare_positive_sum_list:
  assumes "0 < RouteCompare T C"
  shows "RouteCompare T C =
           sum_list (map (\<lambda>(k, v). if v = ''?'' then 1 else 2) (routeParams T))"
  using RouteCompare_positive_rank [OF assms] by (simp only: slots_sum_list)

lemma RouteCompare_literal_to_parameter:
  assumes d1: "distinct (map fst (routeParams T1))"
    and d2: "distinct (map fst (routeParams T2))"
    and v: "map_of (routeParams T1) pos = Some v" and n: "v \<noteq> ''?''"
    and m: "map_of (routeParams T2) = (map_of (routeParams T1))(pos \<mapsto> ''?'')"
    and p1: "0 < RouteCompare T1 C" and p2: "0 < RouteCompare T2 C"
  shows "RouteCompare T1 C = RouteCompare T2 C + 1"
proof -
  define w :: "int \<times> string \<Rightarrow> int" where "w = (\<lambda>(k, v). if v = ''?'' then 1 else 2)"
  have w1: "w (pos, v) = 2" using n by (simp add: w_def)
  have w2: "w (pos, ''?'') = 1" by (simp add: w_def)
  have "sum_list (map w (routeParams T1)) - w (pos, v)
      = sum_list (map w (routeParams T2)) - w (pos, ''?'')"
    using d1 d2 v m by (rule sum_list_alist_update)
  moreover have "RouteCompare T1 C = sum_list (map w (routeParams T1))"
    unfolding w_def using p1 by (rule RouteCompare_positive_sum_list)
  moreover have "RouteCompare T2 C = sum_list (map w (routeParams T2))"
    unfolding w_def using p2 by (rule RouteCompare_positive_sum_list)
  ultimately show ?thesis by (simp only: w1 w2)
qed



lemma RouteCompare_positive_literals:
  assumes "0 < RouteCompare T C" and "(k, v) \<in> set (routeParams T)" and "v \<noteq> ''?''"
  shows "index_map (routeParams C) k = v"
proof -
  have "\<forall>(k, v) \<in> set (routeParams T). v = ''?'' \<or> v = index_map (routeParams C) k"
    using RouteCompare_positive [OF assms(1)] by (elim conjE)
  then have "case (k, v) of (k, v) \<Rightarrow> v = ''?'' \<or> v = index_map (routeParams C) k"
    using assms(2) by (rule bspec)
  then show ?thesis using assms(3) by simp
qed

lemma RouteCompare_match:
  assumes "len (routeParams T) = len (routeParams C)"
    and "\<forall>(k, v) \<in> set (routeParams T). v = ''?'' \<or> v = index_map (routeParams C) k"
    and "\<forall>(k, v) \<in> set (queryParams T). map_of (queryParams C) k = Some v"
  shows "RouteCompare T C =
           int (length (filter (\<lambda>(k, v). v = ''?'') (routeParams T)))
           + 2 * int (length (filter (\<lambda>(k, v). v \<noteq> ''?'') (routeParams T)))"
  by (subst RouteCompare_eq) (rule if_P, intro conjI assms)

lemma RouteCompare_match_positive:
  assumes "len (routeParams T) = len (routeParams C)"
    and "routeParams T \<noteq> []"
    and "\<forall>(k, v) \<in> set (routeParams T). v = ''?'' \<or> v = index_map (routeParams C) k"
    and "\<forall>(k, v) \<in> set (queryParams T). map_of (queryParams C) k = Some v"
  shows "0 < RouteCompare T C"
proof -
  define P :: "int \<times> string \<Rightarrow> bool" where "P = (\<lambda>(k, v). v = ''?'')"
  have n: "(\<lambda>(k, v). v \<noteq> ''?'') = (\<lambda>e. \<not> P e)"
    by (rule ext) (simp add: P_def case_prod_beta)
  have "length (filter P (routeParams T)) + length (filter (\<lambda>e. \<not> P e) (routeParams T))
          = length (routeParams T)"
    by (rule sum_length_filter_compl)
  moreover have "0 < length (routeParams T)" using assms(2) by simp
  ultimately have "0 < int (length (filter P (routeParams T)))
      + 2 * int (length (filter (\<lambda>e. \<not> P e) (routeParams T)))"
    by linarith
  moreover have "RouteCompare T C = int (length (filter P (routeParams T)))
      + 2 * int (length (filter (\<lambda>e. \<not> P e) (routeParams T)))"
    using RouteCompare_match [OF assms(1,3,4)] by (simp only: n P_def)
  ultimately show ?thesis by simp
qed

lemma Find_range_unchanged:
  "\<forall>t \<in> set rs. RouteCompare t prt \<le> lrnk \<Longrightarrow> Find_range rs prt lrnk lrt = (lrnk, lrt)"
proof (induction rs)
  case Nil
  show ?case by simp
next
  case (Cons t rs)
  have "RouteCompare t prt \<le> lrnk" using Cons.prems by simp
  moreover have "Find_range rs prt lrnk lrt = (lrnk, lrt)"
    using Cons.prems by (intro Cons.IH) simp
  ultimately show ?case by (simp add: Let_def)
qed

lemma Find_range_first_best:
  assumes "i < length rs"
    and "lrnk < RouteCompare (rs ! i) prt"
    and "RouteCompare (rs ! i) prt \<noteq> 0"
    and "\<forall>j < length rs. RouteCompare (rs ! j) prt \<le> RouteCompare (rs ! i) prt"
    and "\<forall>j < i. RouteCompare (rs ! j) prt \<noteq> RouteCompare (rs ! i) prt"
  shows "Find_range rs prt lrnk lrt = (RouteCompare (rs ! i) prt, Some (rs ! i))"
  using assms
proof (induction rs arbitrary: i lrnk lrt)
  case Nil
  then show ?case by simp
next
  case (Cons t rs)
  show ?case
  proof (cases i)
    case 0
    have le: "\<forall>u \<in> set rs. RouteCompare u prt \<le> RouteCompare t prt"
    proof
      fix u assume "u \<in> set rs"
      then obtain j where j: "j < length rs" "rs ! j = u" by (auto simp: in_set_conv_nth)
      then have "Suc j < length (t # rs)" by simp
      then have "RouteCompare ((t # rs) ! Suc j) prt \<le> RouteCompare ((t # rs) ! i) prt"
        using Cons.prems(4) by blast
      then show "RouteCompare u prt \<le> RouteCompare t prt" using j 0 by simp
    qed
    have "Find_range rs prt (RouteCompare t prt) (Some t) = (RouteCompare t prt, Some t)"
      using le by (rule Find_range_unchanged)
    moreover have "RouteCompare t prt \<noteq> 0" "lrnk < RouteCompare t prt"
      using Cons.prems(2,3) 0 by simp_all
    ultimately show ?thesis using 0 by (simp add: Let_def)
  next
    case (Suc i')
    let ?m = "RouteCompare (rs ! i') prt"
    have i': "i' < length rs" using Cons.prems(1) Suc by simp
    have m0: "?m \<noteq> 0" using Cons.prems(3) Suc by simp
    have le: "\<forall>j < length rs. RouteCompare (rs ! j) prt \<le> ?m"
    proof (intro allI impI)
      fix j assume "j < length rs"
      then have "Suc j < length (t # rs)" by simp
      then have "RouteCompare ((t # rs) ! Suc j) prt \<le> RouteCompare ((t # rs) ! i) prt"
        using Cons.prems(4) by blast
      then show "RouteCompare (rs ! j) prt \<le> ?m" using Suc by simp
    qed
    have ne: "\<forall>j < i'. RouteCompare (rs ! j) prt \<noteq> ?m"
    proof (intro allI impI)
      fix j assume "j < i'"
      then have "Suc j < i" using Suc by simp
      then have "RouteCompare ((t # rs) ! Suc j) prt \<noteq> RouteCompare ((t # rs) ! i) prt"
        using Cons.prems(5) by blast
      then show "RouteCompare (rs ! j) prt \<noteq> ?m" using Suc by simp
    qed
    have "0 < i" using Suc by simp
    then have "RouteCompare ((t # rs) ! 0) prt \<noteq> RouteCompare ((t # rs) ! i) prt"
      using Cons.prems(5) by blast
    moreover have "RouteCompare ((t # rs) ! 0) prt \<le> RouteCompare ((t # rs) ! i) prt"
      using Cons.prems(4) by (simp del: nth_Cons_0)
    ultimately have lt: "RouteCompare t prt < ?m" using Suc by simp
    have l: "lrnk < ?m" using Cons.prems(2) Suc by simp
    have IH: "Find_range rs prt r x = (?m, Some (rs ! i'))" if "r < ?m" for r x
      using i' that m0 le ne by (rule Cons.IH)
    show ?thesis
      using IH [OF lt] IH [OF l] Suc by (simp add: Let_def)
  qed
qed


lemma Find_range_none:
  assumes "\<forall>t \<in> set rs. RouteCompare t prt = 0"
  shows "Find_range rs prt 0 None = (0, None)"
proof -
  have "\<forall>t \<in> set rs. RouteCompare t prt \<le> 0" using assms by simp
  then show ?thesis by (rule Find_range_unchanged)
qed

lemma Find_range_some:
  assumes "\<not> (\<forall>t \<in> set rs. RouteCompare t prt = 0)"
  shows "\<exists>i < length rs. 0 < RouteCompare (rs ! i) prt
           \<and> (\<forall>j < length rs. RouteCompare (rs ! j) prt \<le> RouteCompare (rs ! i) prt)
           \<and> (\<forall>j < i. RouteCompare (rs ! j) prt \<noteq> RouteCompare (rs ! i) prt)
           \<and> Find_range rs prt 0 None = (RouteCompare (rs ! i) prt, Some (rs ! i))"
proof -
  let ?score = "\<lambda>t. RouteCompare t prt"
  let ?S = "?score ` set rs"
  define m where "m = Max ?S"
  obtain t0 where t0: "t0 \<in> set rs" "?score t0 \<noteq> 0" using assms by blast
  have fin: "finite ?S" and ne: "?S \<noteq> {}" using t0 by auto
  have "0 \<le> ?score t0" by (rule RouteCompare_nonneg)
  then have "0 < ?score t0" using t0(2) by simp
  moreover have "?score t0 \<le> m" unfolding m_def using fin t0(1) by (intro Max_ge) simp_all
  ultimately have m_pos: "0 < m" by simp
  have "m \<in> ?S" unfolding m_def using fin ne by (rule Max_in)
  then obtain t where "t \<in> set rs" "?score t = m" by auto
  then obtain i0 where i0: "i0 < length rs \<and> ?score (rs ! i0) = m"
    by (auto simp: in_set_conv_nth)
  define i where "i = (LEAST i. i < length rs \<and> ?score (rs ! i) = m)"
  have i: "i < length rs \<and> ?score (rs ! i) = m"
    unfolding i_def using i0 by (rule LeastI)
  have least: "\<not> (j < length rs \<and> ?score (rs ! j) = m)" if "j < i" for j
    using that unfolding i_def by (rule not_less_Least)
  have le: "\<forall>j < length rs. ?score (rs ! j) \<le> ?score (rs ! i)"
  proof (intro allI impI)
    fix j assume "j < length rs"
    then have "?score (rs ! j) \<in> ?S" by simp
    then have "?score (rs ! j) \<le> m" unfolding m_def using fin by (intro Max_ge)
    then show "?score (rs ! j) \<le> ?score (rs ! i)" using i by simp
  qed
  have nb: "\<forall>j < i. ?score (rs ! j) \<noteq> ?score (rs ! i)"
  proof (intro allI impI)
    fix j assume j: "j < i"
    then have "j < length rs" using i by simp
    then show "?score (rs ! j) \<noteq> ?score (rs ! i)" using least [OF j] i by simp
  qed
  have pos: "0 < ?score (rs ! i)" using i m_pos by simp
  then have nz: "?score (rs ! i) \<noteq> 0" by simp
  have "Find_range rs prt 0 None = (?score (rs ! i), Some (rs ! i))"
    using i [THEN conjunct1] pos nz le nb by (rule Find_range_first_best)
  then show ?thesis using i pos le nb by blast
qed

lemma Find_bucket:
  assumes "routes rt (len (routeParams (ParseRoute sha256 url))) = Some bucket"
    and "Find_range bucket (ParseRoute sha256 url) 0 None = (lrnk, lrt)"
  shows "Find sha256 rt url =
           (if lrnk = 0 then Inr ([], Some NO_MATCH_FOUND)
            else case lrt of None \<Rightarrow> Inl NilPointerDereference
                 | Some r \<Rightarrow> Inr (hash r, None))"
proof -
  have "dom (routes rt) \<noteq> {}" using assms(1) by blast
  then show ?thesis using assms by (simp add: Find_def Let_def)
qed

lemma hash_ParseRoute: "hash (ParseRoute sha256 url) = CreateHash sha256 url"
  by (simp add: ParseRoute_def)

lemma Register_new:
  assumes "configs rt (hash (ParseRoute sha256 url)) = None"
  shows "Register sha256 url conf rt =
     rt\<lparr> configs := (configs rt)(hash (ParseRoute sha256 url) \<mapsto> conf),
         routes := (routes rt)(len (routeParams (ParseRoute sha256 url)) \<mapsto>
           (case routes rt (len (routeParams (ParseRoute sha256 url))) of
              None \<Rightarrow> [] | Some bucket \<Rightarrow> bucket) @ [ParseRoute sha256 url]) \<rparr>"
proof (cases "routes rt (len (routeParams (ParseRoute sha256 url)))")
  case None
  then show ?thesis using assms by (simp add: Register_def Let_def)
next
  case (Some bucket)
  then show ?thesis using assms by (simp add: Register_def Let_def)
qed

lemma Register_known:
  assumes "configs rt (hash (ParseRoute sha256 url)) = Some c"
  shows "Register sha256 url conf rt = rt"
  using assms by (simp add: Register_def Let_def)

lemma routeParams_tie:
  "routeParams (ParseRoute sha256 url_x_b) = [(1, ''x''), (2, ''?'')]"
  "routeParams (ParseRoute sha256 url_a_y) = [(1, ''?''), (2, ''y'')]"
  by (simp_all add: ParseRoute_def url_x_b_def url_a_y_def Split_def HasPrefix_def)

lemma queryParams_tie:
  "queryParams (ParseRoute sha256 url_x_b) = []"
  "queryParams (ParseRoute sha256 url_a_y) = []"
  by (simp_all add: ParseRoute_def url_x_b_def url_a_y_def)

lemma CreateHash_tie: "CreateHash id url_x_b \<noteq> CreateHash id url_a_y"
  by (simp add: CreateHash_def url_x_b_def url_a_y_def EncodeToString_def hextable_def)

lemma table_users_eq:
  "table_users =
     \<lparr> routes = [5 \<mapsto> [ParseRoute id url_users_template]],
       configs = [CreateHash id url_users_template \<mapsto> ''ttl''] \<rparr>"
proof -
  have "configs (DefaultRouteTable :: string RouteTable)
          (hash (ParseRoute id url_users_template)) = None"
    by (simp add: DefaultRouteTable_def)
  then show ?thesis
    unfolding table_users_def
    by (simp add: Register_new DefaultRouteTable_def hash_ParseRoute
        routeParams_users_template len_def)
qed

lemma table_tie_eq:
  "table_tie =
     \<lparr> routes = [2 \<mapsto> [ParseRoute id url_x_b, ParseRoute id url_a_y]],
       configs = [CreateHash id url_x_b \<mapsto> ''first'', CreateHash id url_a_y \<mapsto> ''second''] \<rparr>"
proof -
  have 1: "Register id url_x_b ''first'' (DefaultRouteTable :: string RouteTable) =
      \<lparr> routes = [2 \<mapsto> [ParseRoute id url_x_b]],
        configs = [CreateHash id url_x_b \<mapsto> ''first''] \<rparr>"
    by (subst Register_new)
      (simp_all add: DefaultRouteTable_def hash_ParseRoute routeParams_tie len_def)
  show ?thesis
    unfolding table_tie_def 1
    by (subst Register_new)
      (simp_all add: hash_ParseRoute routeParams_tie len_def CreateHash_tie [symmetric])
qed

lemma RouteCompare_tie:
  "RouteCompare (ParseRoute sha256 url_x_b) (ParseRoute sha256 url_x_y) = 3"
  "RouteCompare (ParseRoute sha256 url_a_y) (ParseRoute sha256 url_x_y) = 3"
  by (simp_all add: RouteCompare_def routeParams_tie queryParams_tie routeParams_a_b
      len_def index_map_def)

lemma routeParams_ken_extra:
  "routeParams (ParseRoute sha256 url_ken_extra) =
     [(1, ''api''), (2, ''v1''), (3, ''users''), (4, ''ken''), (5, ''details''),
      (6, ''extra'')]"
  by (simp add: ParseRoute_def url_ken_extra_def Split_def HasPrefix_def)

lemma RouteCompare_users_template:
  "RouteCompare (ParseRoute sha256 url_users_template) (ParseRoute sha256 url_ken_json) = 0"
  "RouteCompare (ParseRoute sha256 url_users_template)
     (ParseRoute sha256 url_ken_cached_json) = 9"
  by (simp_all add: RouteCompare_def routeParams_users_template routeParams_ken
      queryParams_examples len_def index_map_def)

lemma CreateHash_cong:
  assumes "Path url' = Path url" and "RawQuery url' = RawQuery url"
  shows "CreateHash sha256 url' = CreateHash sha256 url"
  unfolding CreateHash_def assms ..

lemma mset_insert_by: "mset (insert_by lt x ys) = add_mset x (mset ys)"
  by (induction ys) simp_all

lemma mset_sort_Slice: "mset (sort_Slice lt xs) = mset xs"
  by (induction xs) (simp_all add: mset_insert_by)

lemma set_insert_by: "set (insert_by lt x ys) = insert x (set ys)"
  by (induction ys) auto

lemma sorted_wrt_insert_by:
  fixes x :: "'a :: linorder"
  assumes "sorted_wrt (\<lambda>a b. a \<ge> b) ys"
  shows "sorted_wrt (\<lambda>a b. a \<ge> b) (insert_by (\<lambda>a b. a > b) x ys)"
  using assms
proof (induction ys)
  case Nil
  show ?case by simp
next
  case (Cons y ys)
  show ?case
  proof (cases "y > x")
    case True
    then show ?thesis using Cons by (auto simp: set_insert_by)
  next
    case False
    then show ?thesis using Cons by auto
  qed
qed

lemma sorted_wrt_sort_Slice:
  fixes xs :: "'a :: linorder list"
  shows "sorted_wrt (\<lambda>a b. a \<ge> b) (sort_Slice (\<lambda>a b. a > b) xs)"
  by (induction xs) (simp_all add: sorted_wrt_insert_by)

lemma sort_Slice_rev_sort:
  fixes xs :: "'a :: linorder list"
  shows "sort_Slice (\<lambda>a b. a > b) xs = rev (sort xs)"
proof -
  have "sorted (rev (sort_Slice (\<lambda>a b. a > b) xs))"
    using sorted_wrt_sort_Slice [of xs] by (simp add: sorted_wrt_rev)
  moreover have "mset (rev (sort_Slice (\<lambda>a b. a > b) xs)) = mset xs"
    by (simp add: mset_sort_Slice)
  ultimately have "sort xs = rev (sort_Slice (\<lambda>a b. a > b) xs)"
    by (intro properties_for_sort)
  then show ?thesis by (simp add: rev_swap)
qed

lemma sort_Slice_mset_cong:
  fixes xs ys :: "'a :: linorder list"
  assumes "mset xs = mset ys"
  shows "sort_Slice (\<lambda>a b. a > b) xs = sort_Slice (\<lambda>a b. a > b) ys"
proof -
  have "sort xs = sort ys"
    using assms by (intro properties_for_sort) simp_all
  then show ?thesis by (simp only: sort_Slice_rev_sort)
qed


lemma update_fresh:
  "k \<notin> fst ` set al \<Longrightarrow> AList.update k v al = al @ [(k, v)]"
  by (induction al) auto

lemma ParseRoute_segments_eq:
  assumes "\<forall>k \<in> fst ` set params. k < int n"
  shows "ParseRoute_segments (int n) segs params =
           params @ [(int i, if HasPrefix s '':'' then ''?'' else s).
                       (i, s) \<leftarrow> enumerate n segs, s \<noteq> []]"
  using assms
proof (induction segs arbitrary: n params)
  case Nil
  show ?case by simp
next
  case (Cons seg segs)
  have next_index: "int n + 1 = int (Suc n)" by simp
  show ?case
  proof (cases "seg = []")
    case True
    have "\<forall>k \<in> fst ` set params. k < int (Suc n)" using Cons.prems by auto
    then have "ParseRoute_segments (int (Suc n)) segs params =
           params @ [(int i, if HasPrefix s '':'' then ''?'' else s).
                       (i, s) \<leftarrow> enumerate (Suc n) segs, s \<noteq> []]"
      by (rule Cons.IH)
    then show ?thesis using True by (simp add: next_index del: of_nat_Suc)
  next
    case False
    define v where "v = (if HasPrefix seg '':'' then ''?'' else seg)"
    have fresh: "int n \<notin> fst ` set params" using Cons.prems by auto
    have u: "AList.update (int n) v params = params @ [(int n, v)]"
      using fresh by (rule update_fresh)
    have "\<forall>k \<in> fst ` set (params @ [(int n, v)]). k < int (Suc n)"
      using Cons.prems by auto
    then have IH: "ParseRoute_segments (int (Suc n)) segs (params @ [(int n, v)]) =
           (params @ [(int n, v)]) @ [(int i, if HasPrefix s '':'' then ''?'' else s).
                       (i, s) \<leftarrow> enumerate (Suc n) segs, s \<noteq> []]"
      by (rule Cons.IH)
    have "ParseRoute_segments (int n) (seg # segs) params =
            ParseRoute_segments (int (Suc n)) segs (AList.update (int n) v params)"
      using False by (simp add: v_def next_index del: of_nat_Suc)
    also have "\<dots> = (params @ [(int n, v)]) @ [(int i, if HasPrefix s '':'' then ''?'' else s).
                       (i, s) \<leftarrow> enumerate (Suc n) segs, s \<noteq> []]"
      by (simp only: u IH)
    also have "\<dots> = params @ [(int i, if HasPrefix s '':'' then ''?'' else s).
                       (i, s) \<leftarrow> enumerate n (seg # segs), s \<noteq> []]"
      using False by (simp add: v_def)
    finally show ?thesis .
  qed
qed

lemma routeParams_ParseRoute:
  "routeParams (ParseRoute sha256 url) =
     [(int i, if HasPrefix s '':'' then ''?'' else s).
        (i, s) \<leftarrow> enumerate 0 (Split (Path url) CHR ''/''), s \<noteq> []]"
proof -
  have "ParseRoute_segments (int 0) (Split (Path url) CHR ''/'') [] =
     [] @ [(int i, if HasPrefix s '':'' then ''?'' else s).
        (i, s) \<leftarrow> enumerate 0 (Split (Path url) CHR ''/''), s \<noteq> []]"
    by (rule ParseRoute_segments_eq) simp
  then show ?thesis by (simp add: ParseRoute_def)
qed

lemma ParseRoute_query_eq:
  assumes "distinct (map fst qs @ map fst params)"
  shows "ParseRoute_query qs params =
           params @ map (\<lambda>(key, value). (key, Join (sort_Slice (\<lambda>a b. a > b) value) '','')) qs"
  using assms
proof (induction qs arbitrary: params)
  case Nil
  show ?case by simp
next
  case (Cons e qs)
  obtain key val where e: "e = (key, val)" by (cases e)
  define v where "v = Join (sort_Slice (\<lambda>a b. a > b) val) '',''"
  have fresh: "key \<notin> fst ` set params" using Cons.prems by (auto simp: e)
  have u: "AList.update key v params = params @ [(key, v)]"
    using fresh by (rule update_fresh)
  have "distinct (map fst qs @ map fst (params @ [(key, v)]))"
    using Cons.prems by (auto simp: e)
  then have IH: "ParseRoute_query qs (params @ [(key, v)]) =
      (params @ [(key, v)]) @ map (\<lambda>(key, value). (key, Join (sort_Slice (\<lambda>a b. a > b) value) '','')) qs"
    by (rule Cons.IH)
  show ?case by (simp add: e v_def [symmetric] u IH)
qed

lemma queryParams_ParseRoute:
  assumes "distinct (map fst (Query url))"
  shows "queryParams (ParseRoute sha256 url) =
     map (\<lambda>(key, value). (key, Join (sort_Slice (\<lambda>a b. a > b) value) '','')) (Query url)"
proof -
  have "distinct (map fst (Query url) @ map fst ([] :: (string \<times> string) list))"
    using assms by simp
  then have "ParseRoute_query (Query url) [] =
     [] @ map (\<lambda>(key, value). (key, Join (sort_Slice (\<lambda>a b. a > b) value) '','')) (Query url)"
    by (rule ParseRoute_query_eq)
  then show ?thesis by (simp add: ParseRoute_def)
qed

lemma map_fst_indexed:
  "map fst (concat (map (\<lambda>(i, s). if P s then [(int i, g s)] else []) es)) =
     map (int \<circ> fst) (filter (\<lambda>(i, s). P s) es)"
proof (induction es)
  case Nil
  show ?case by simp
next
  case (Cons e es)
  obtain i s where e: "e = (i, s)" by (cases e)
  show ?case using Cons.IH by (simp add: e)
qed

lemma distinct_routeParams_ParseRoute:
  "distinct (map fst (routeParams (ParseRoute sha256 url)))"
proof -
  let ?pieces = "enumerate 0 (Split (Path url) CHR ''/'')"
  have "distinct (map fst ?pieces)" by simp
  then have "distinct (map int (map fst ?pieces))"
    by (simp only: distinct_map) simp
  then have "distinct (map (int \<circ> fst) ?pieces)" by (simp only: map_map)
  then have "distinct (map (int \<circ> fst) (filter (\<lambda>(i, s). s \<noteq> []) ?pieces))"
    by (rule distinct_map_filter)
  then show ?thesis
    by (simp only: routeParams_ParseRoute map_fst_indexed)
qed

lemma distinct_queryParams_ParseRoute:
  assumes "distinct (map fst (Query url))"
  shows "distinct (map fst (queryParams (ParseRoute sha256 url)))"
proof -
  have "map fst (queryParams (ParseRoute sha256 url)) = map fst (Query url)"
    by (simp add: queryParams_ParseRoute [OF assms] case_prod_beta comp_def)
  then show ?thesis using assms by simp
qed

lemma map_of_queryParams_ParseRoute:
  assumes "distinct (map fst (Query url))"
  shows "map_of (queryParams (ParseRoute sha256 url)) key =
     map_option (\<lambda>value. Join (sort_Slice (\<lambda>a b. a > b) value) '','') (map_of (Query url) key)"
  by (simp add: queryParams_ParseRoute [OF assms] map_of_map)

lemma RouteCompare_query_same_map:
  assumes "distinct (map fst params)" and "map_of (queryParams C) = map_of params"
  shows "RouteCompare_query params C rank = rank"
proof -
  have a: "\<forall>(k, v) \<in> set params. map_of (queryParams C) k = Some v"
  proof (rule ballI)
    fix e assume e: "e \<in> set params"
    obtain k v where kv: "e = (k, v)" by (cases e)
    have "map_of params k = Some v" using assms(1) e kv by simp
    then show "case e of (k, v) \<Rightarrow> map_of (queryParams C) k = Some v"
      by (simp add: kv assms(2))
  qed
  show ?thesis by (subst RouteCompare_query_eq) (rule if_P [OF a])
qed

lemma routeParams_a__b:
  "routeParams (ParseRoute sha256 url_a__b) = [(1, ''a''), (3, ''b'')]"
  by (simp add: ParseRoute_def url_a__b_def Split_def HasPrefix_def)

lemma Split_a__b: "Split ''/a//b'' CHR ''/'' = [[], ''a'', [], ''b'']"
  by (simp add: Split_def)

lemma queryParams_tag:
  "queryParams (ParseRoute sha256 url_tag_b_a) = [(''tag'', ''b,a'')]"
  "queryParams (ParseRoute sha256 url_tag_a_b) = [(''tag'', ''b,a'')]"
  by (simp_all add: ParseRoute_def url_tag_b_a_def url_tag_a_b_def)

lemma routeParams_tag:
  "routeParams (ParseRoute sha256 url_tag_b_a) = [(1, ''items'')]"
  "routeParams (ParseRoute sha256 url_tag_a_b) = [(1, ''items'')]"
  by (simp_all add: ParseRoute_def url_tag_b_a_def url_tag_a_b_def Split_def HasPrefix_def)

lemma RouteCompare_tag:
  "RouteCompare (ParseRoute sha256 url_tag_a_b) (ParseRoute sha256 url_tag_b_a) = 2"
  "RouteCompare (ParseRoute sha256 url_tag_b_a) (ParseRoute sha256 url_tag_a_b) = 2"
  by (simp_all add: RouteCompare_def routeParams_tag queryParams_tag len_def index_map_def)

lemma map_of_queryParams_mset_cong:
  assumes d1: "distinct (map fst (Query url1))" and d2: "distinct (map fst (Query url2))"
    and m: "\<forall>key. map_option mset (map_of (Query url1) key)
                  = map_option mset (map_of (Query url2) key)"
  shows "map_of (queryParams (ParseRoute sha256 url1))
           = map_of (queryParams (ParseRoute sha256 url2))"
proof (rule ext)
  fix key
  let ?norm = "\<lambda>value :: string list. Join (sort_Slice (\<lambda>a b. a > b) value) '',''"
  have k: "map_option mset (map_of (Query url1) key) = map_option mset (map_of (Query url2) key)"
    using m by (rule spec)
  have "map_option ?norm (map_of (Query url1) key) = map_option ?norm (map_of (Query url2) key)"
  proof (cases "map_of (Query url1) key")
    case None
    then have "map_of (Query url2) key = None" using k by simp
    then show ?thesis using None by simp
  next
    case (Some vs1)
    then obtain vs2 where vs2: "map_of (Query url2) key = Some vs2"
      using k by (cases "map_of (Query url2) key") simp_all
    then have "mset vs1 = mset vs2" using k Some by simp
    then have "sort_Slice (\<lambda>a b. a > b) vs1 = sort_Slice (\<lambda>a b. a > b) vs2"
      by (rule sort_Slice_mset_cong)
    then show ?thesis using Some vs2 by simp
  qed
  then show "map_of (queryParams (ParseRoute sha256 url1)) key
           = map_of (queryParams (ParseRoute sha256 url2)) key"
    by (simp only: map_of_queryParams_ParseRoute [OF d1] map_of_queryParams_ParseRoute [OF d2])
qed

text \<open>The order in which \<open>range\<close> delivers the entries of a map does not change the
  result of \<open>RouteCompare\<close>: association lists with distinct keys that denote the same
  maps give the same score.\<close>

lemma alist_same_map:
  assumes "distinct (map fst xs)" and "distinct (map fst ys)" and "map_of ys = map_of xs"
  shows "set ys = set xs" and "length ys = length xs"
    and "length (filter P ys) = length (filter P xs)"
proof -
  show s: "set ys = set xs"
    using assms by (simp add: map_of_inject_set)
  have "distinct xs" "distinct ys"
    using assms(1,2) by (simp_all add: distinct_map)
  then have m: "mset ys = mset xs"
    using s by (simp add: set_eq_iff_mset_eq_distinct)
  then show "length ys = length xs" by (rule mset_eq_length)
  have "mset (filter P ys) = mset (filter P xs)"
    using m by (simp add: mset_filter)
  then show "length (filter P ys) = length (filter P xs)" by (rule mset_eq_length)
qed

lemma RouteCompare_range_order:
  assumes "distinct (map fst (routeParams T))" and "distinct (map fst (routeParams T'))"
    and "map_of (routeParams T') = map_of (routeParams T)"
    and "distinct (map fst (queryParams T))" and "distinct (map fst (queryParams T'))"
    and "map_of (queryParams T') = map_of (queryParams T)"
    and "distinct (map fst (routeParams C))" and "distinct (map fst (routeParams C'))"
    and "map_of (routeParams C') = map_of (routeParams C)"
    and "map_of (queryParams C') = map_of (queryParams C)"
  shows "RouteCompare T' C' = RouteCompare T C"
proof -
  note rT = alist_same_map [OF assms(1,2,3)]
  note qT = alist_same_map [OF assms(4,5,6)]
  note rC = alist_same_map [OF assms(7,8,9)]
  have l: "len (routeParams T') = len (routeParams T)" "len (routeParams C') = len (routeParams C)"
    by (simp_all only: len_def rT(2) rC(2))
  have i: "index_map (routeParams C') = index_map (routeParams C)"
    by (rule ext) (simp only: index_map_def assms(9))
  show ?thesis
    unfolding RouteCompare_eq l i rT(1) rT(3) qT(1) assms(10) ..
qed

section \<open>Properties\<close>

text \<open>
  C1. Rule 3 of the scorer, the query parameters of the template as a subset with
  equality. For every template \<open>T\<close>:
  \<^item> if a query key of \<open>T\<close> is absent from the candidate, or present there with another
    normalized value, \<open>RouteCompare\<close> returns 0, whatever rank the path segments
    reached;
  \<^item> two candidates with the same segment map that agree on every query key of \<open>T\<close>
    get the same score, so the query keys that only the candidate has never affect the
    result;
  \<^item> a candidate that has every query key of \<open>T\<close> with exactly the value of \<open>T\<close>
    scores what it scores against \<open>T\<close> stripped of its query parameters;
  \<^item> such a candidate still matches: when it has as many segments as \<open>T\<close>, \<open>T\<close> has
    at least one segment and every literal of \<open>T\<close> is the candidate's segment at its
    position, the score is positive, one for each parameter slot and two for each
    literal, however many query keys the candidate has besides those of \<open>T\<close>.
  The template \<open>/api/v1/users/:username/details?type=cached\<close> scores 9 against
  \<open>/api/v1/users/ken/details?type=cached&format=JSON\<close>, which has the extra key
  \<open>format\<close>, and 0 against \<open>/api/v1/users/ken/details?format=JSON\<close>, which lacks
  \<open>type\<close>.
\<close>

theorem RouteCompare_query_subset:
  "(map_of (queryParams T) key = Some v \<longrightarrow> map_of (queryParams D) key \<noteq> Some v \<longrightarrow>
      RouteCompare T D = 0)
   \<and> (routeParams C' = routeParams C \<longrightarrow>
        (\<forall>key \<in> fst ` set (queryParams T).
           map_of (queryParams C') key = map_of (queryParams C) key) \<longrightarrow>
        RouteCompare T C' = RouteCompare T C)
   \<and> ((\<forall>(key, v) \<in> set (queryParams T). map_of (queryParams C') key = Some v) \<longrightarrow>
        RouteCompare T C' = RouteCompare (T\<lparr>queryParams := []\<rparr>) C')
   \<and> (len (routeParams T) = len (routeParams C') \<longrightarrow> routeParams T \<noteq> [] \<longrightarrow>
        (\<forall>(pos, v) \<in> set (routeParams T). v = ''?'' \<or> v = index_map (routeParams C') pos) \<longrightarrow>
        (\<forall>(key, v) \<in> set (queryParams T). map_of (queryParams C') key = Some v) \<longrightarrow>
        0 < RouteCompare T C'
        \<and> RouteCompare T C' =
            int (length (filter (\<lambda>(pos, v). v = ''?'') (routeParams T)))
            + 2 * int (length (filter (\<lambda>(pos, v). v \<noteq> ''?'') (routeParams T))))
   \<and> RouteCompare (ParseRoute sha256 url_users_template)
         (ParseRoute sha256 url_ken_cached_json) = 9
   \<and> RouteCompare (ParseRoute sha256 url_users_template) (ParseRoute sha256 url_ken_json) = 0"
proof (intro conjI impI)
  assume "map_of (queryParams T) key = Some v" "map_of (queryParams D) key \<noteq> Some v"
  then have "(key, v) \<in> set (queryParams T)" "map_of (queryParams D) key \<noteq> Some v"
    by (auto dest: map_of_SomeD)
  then have "\<not> (\<forall>(k, v) \<in> set (queryParams T). map_of (queryParams D) k = Some v)"
    by blast
  then have "RouteCompare_query (queryParams T) D rank = 0" for rank
    by (simp only: RouteCompare_query_eq if_False)
  then show "RouteCompare T D = 0"
    by (simp add: RouteCompare_def)
next
  assume r: "routeParams C' = routeParams C"
    and q: "\<forall>key \<in> fst ` set (queryParams T).
              map_of (queryParams C') key = map_of (queryParams C) key"
  have s: "RouteCompare_segments (routeParams T) C' 0
         = RouteCompare_segments (routeParams T) C 0"
    by (rule RouteCompare_segments_cong) (simp add: r split: prod.splits)
  have "map_of (queryParams C') k = map_of (queryParams C) k"
    if "(k, w) \<in> set (queryParams T)" for k w
    using q that by (metis fst_conv imageI)
  then have "(\<forall>(k, v) \<in> set (queryParams T). map_of (queryParams C') k = Some v)
      \<longleftrightarrow> (\<forall>(k, v) \<in> set (queryParams T). map_of (queryParams C) k = Some v)"
    by (metis (mono_tags, lifting) case_prodD case_prodI2)
  then show "RouteCompare T C' = RouteCompare T C"
    by (simp add: RouteCompare_def RouteCompare_query_eq r s)
next
  assume "\<forall>(key, v) \<in> set (queryParams T). map_of (queryParams C') key = Some v"
  then show "RouteCompare T C' = RouteCompare (T\<lparr>queryParams := []\<rparr>) C'"
    by (simp add: RouteCompare_def RouteCompare_query_eq)
next
  assume m: "len (routeParams T) = len (routeParams C')" "routeParams T \<noteq> []"
    "\<forall>(pos, v) \<in> set (routeParams T). v = ''?'' \<or> v = index_map (routeParams C') pos"
    "\<forall>(key, v) \<in> set (queryParams T). map_of (queryParams C') key = Some v"
  then show "0 < RouteCompare T C'"
    by (rule RouteCompare_match_positive)
  show "RouteCompare T C' =
            int (length (filter (\<lambda>(pos, v). v = ''?'') (routeParams T)))
            + 2 * int (length (filter (\<lambda>(pos, v). v \<noteq> ''?'') (routeParams T)))"
    using m(1,3,4) by (rule RouteCompare_match)
next
  show "RouteCompare (ParseRoute sha256 url_users_template)
         (ParseRoute sha256 url_ken_cached_json) = 9"
    by (rule RouteCompare_users_template)
  show "RouteCompare (ParseRoute sha256 url_users_template) (ParseRoute sha256 url_ken_json) = 0"
    by (rule RouteCompare_users_template)
qed

theorem RouteCompare_query_subset_witness:
  "map_of (queryParams (ParseRoute id url_users_template)) ''type'' = Some ''cached''
   \<and> map_of (queryParams (ParseRoute id url_ken_json)) ''type'' \<noteq> Some ''cached''
   \<and> RouteCompare (ParseRoute id url_users_template) (ParseRoute id url_ken_json) = 0
   \<and> routeParams (ParseRoute id url_ken_cached_json) = routeParams (ParseRoute id url_ken_cached)
   \<and> queryParams (ParseRoute id url_ken_cached_json)
       = [(''type'', ''cached''), (''format'', ''JSON'')]
   \<and> queryParams (ParseRoute id url_ken_cached) = [(''type'', ''cached'')]
   \<and> RouteCompare (ParseRoute id url_users_template) (ParseRoute id url_ken_cached_json)
       = RouteCompare (ParseRoute id url_users_template) (ParseRoute id url_ken_cached)
   \<and> RouteCompare (ParseRoute id url_users_template) (ParseRoute id url_ken_cached_json)
       = RouteCompare ((ParseRoute id url_users_template)\<lparr>queryParams := []\<rparr>)
           (ParseRoute id url_ken_cached_json)
   \<and> len (routeParams (ParseRoute id url_users_template))
       = len (routeParams (ParseRoute id url_ken_cached_json))
   \<and> routeParams (ParseRoute id url_users_template) \<noteq> []
   \<and> 0 < RouteCompare (ParseRoute id url_users_template) (ParseRoute id url_ken_cached_json)
   \<and> RouteCompare (ParseRoute id url_users_template) (ParseRoute id url_ken_cached_json) = 9
   \<and> RouteCompare (ParseRoute id url_users_template) (ParseRoute id url_ken_cached) = 9"
proof -
  let ?T = "ParseRoute id url_users_template"
  let ?D = "ParseRoute id url_ken_json"
  let ?C = "ParseRoute id url_ken_cached"
  let ?C' = "ParseRoute id url_ken_cached_json"
  have h1: "map_of (queryParams ?T) ''type'' = Some ''cached''"
    by (simp add: queryParams_examples)
  have h2: "map_of (queryParams ?D) ''type'' \<noteq> Some ''cached''"
    by (simp add: queryParams_examples)
  have h3: "routeParams ?C' = routeParams ?C"
    by (simp add: routeParams_ken)
  have h4: "\<forall>key \<in> fst ` set (queryParams ?T).
              map_of (queryParams ?C') key = map_of (queryParams ?C) key"
    by (simp add: queryParams_examples)
  have h5: "\<forall>(key, v) \<in> set (queryParams ?T). map_of (queryParams ?C') key = Some v"
    by (simp add: queryParams_examples)
  have h6: "len (routeParams ?T) = len (routeParams ?C')"
    by (simp add: routeParams_users_template routeParams_ken len_def)
  have h7: "routeParams ?T \<noteq> []"
    by (simp add: routeParams_users_template)
  have h8: "\<forall>(pos, v) \<in> set (routeParams ?T). v = ''?'' \<or> v = index_map (routeParams ?C') pos"
    by (simp add: routeParams_users_template routeParams_ken index_map_def)
  have q1: "queryParams ?C' = [(''type'', ''cached''), (''format'', ''JSON'')]"
    and q2: "queryParams ?C = [(''type'', ''cached'')]"
    by (simp_all add: queryParams_examples)
  note t = RouteCompare_query_subset [of ?T "''type''" "''cached''" ?D ?C' ?C id]
  have c1: "RouteCompare ?T ?D = 0" using t h1 h2 by blast
  have c2: "RouteCompare ?T ?C' = RouteCompare ?T ?C" using t h3 h4 by blast
  have c3: "RouteCompare ?T ?C' = RouteCompare (?T\<lparr>queryParams := []\<rparr>) ?C'"
    using t h5 by blast
  have c4: "0 < RouteCompare ?T ?C'" using t h5 h6 h7 h8 by blast
  have c5: "RouteCompare ?T ?C' = 9" using t by blast
  have c6: "RouteCompare ?T ?C = 9" using c2 c5 by simp
  show ?thesis using h1 h2 c1 h3 q1 q2 c2 c3 h6 h7 c4 c5 c6 by (intro conjI)
qed

text \<open>
  C2. For every template route and every candidate route whose segment maps differ in
  their number of entries, \<open>RouteCompare\<close> returns 0, whatever the segments and the
  query parameters are.
\<close>

theorem RouteCompare_segment_count:
  "len (routeParams T) \<noteq> len (routeParams C) \<Longrightarrow> RouteCompare T C = 0"
  by (simp add: RouteCompare_def)

theorem RouteCompare_segment_count_witness:
  "len (routeParams \<lparr>host = [], routeParams = [(1, ''a'')], queryParams = [], hash = []\<rparr>)
     \<noteq> len (routeParams \<lparr>host = [], routeParams = [(1, ''a''), (2, ''b'')],
                               queryParams = [], hash = []\<rparr>)
   \<and> RouteCompare \<lparr>host = [], routeParams = [(1, ''a'')], queryParams = [], hash = []\<rparr>
         \<lparr>host = [], routeParams = [(1, ''a''), (2, ''b'')], queryParams = [], hash = []\<rparr> = 0"
  using RouteCompare_segment_count
    [of "\<lparr>host = [], routeParams = [(1, ''a'')], queryParams = [], hash = []\<rparr>"
        "\<lparr>host = [], routeParams = [(1, ''a''), (2, ''b'')], queryParams = [], hash = []\<rparr>"]
  by (simp add: len_def)

text \<open>
  C3. If the template has a literal (a value other than the sentinel \<open>?\<close>) at some
  position, and the candidate's segment at that position differs from it (a position
  absent from the candidate reads as the empty string), then \<open>RouteCompare\<close>
  returns 0, whatever the other segments and the query parameters are.
\<close>

theorem RouteCompare_literal_mismatch:
  "map_of (routeParams T) pos = Some v \<Longrightarrow> v \<noteq> ''?'' \<Longrightarrow>
   v \<noteq> index_map (routeParams C) pos \<Longrightarrow> RouteCompare T C = 0"
proof -
  assume "map_of (routeParams T) pos = Some v" and v: "v \<noteq> ''?''"
    "v \<noteq> index_map (routeParams C) pos"
  then have "(pos, v) \<in> set (routeParams T)" by (simp add: map_of_SomeD)
  then have "RouteCompare_segments (routeParams T) C 0 = 0"
    using v by (rule RouteCompare_segments_mismatch)
  then show ?thesis
    by (simp add: RouteCompare_def RouteCompare_query_eq)
qed

theorem RouteCompare_literal_mismatch_witness:
  "map_of (routeParams (ParseRoute id url_users_template)) 3 = Some ''users''
   \<and> ''users'' \<noteq> ''?''
   \<and> ''users'' \<noteq> index_map (routeParams (ParseRoute id url_groups_cached)) 3
   \<and> RouteCompare (ParseRoute id url_users_template) (ParseRoute id url_groups_cached) = 0"
proof -
  let ?T = "ParseRoute id url_users_template"
  let ?C = "ParseRoute id url_groups_cached"
  have h1: "map_of (routeParams ?T) 3 = Some ''users''"
    by (simp add: routeParams_users_template)
  have h2: "''users'' \<noteq> ''?''" by simp
  have h3: "''users'' \<noteq> index_map (routeParams ?C) 3"
    by (simp add: routeParams_groups index_map_def)
  show ?thesis
    using RouteCompare_literal_mismatch [OF h1 h2 h3] h1 h2 h3 by blast
qed

text \<open>
  C4. In a positive result of \<open>RouteCompare\<close> every literal slot of the template
  matches the candidate, each parameter slot has contributed exactly 1 and each literal
  slot exactly 2. Hence, of two templates that both match a candidate and differ only in
  one position, where the first has a literal and the second the parameter sentinel,
  the first scores strictly more (one more). The literal template of five segments
  \<open>/api/v1/users/ken/details\<close> scores 10 against itself, and the same template with
  the parameter \<open>:username\<close> in place of \<open>ken\<close> scores 9.
\<close>

theorem RouteCompare_specificity:
  "(0 < RouteCompare T C \<longrightarrow>
      (\<forall>(k, v) \<in> set (routeParams T). v \<noteq> ''?'' \<longrightarrow> index_map (routeParams C) k = v)
      \<and> RouteCompare T C =
          int (length (filter (\<lambda>(k, v). v = ''?'') (routeParams T)))
          + 2 * int (length (filter (\<lambda>(k, v). v \<noteq> ''?'') (routeParams T))))
   \<and> (distinct (map fst (routeParams T1)) \<longrightarrow> distinct (map fst (routeParams T2)) \<longrightarrow>
      map_of (routeParams T1) pos = Some v \<longrightarrow> v \<noteq> ''?'' \<longrightarrow>
      map_of (routeParams T2) = (map_of (routeParams T1))(pos \<mapsto> ''?'') \<longrightarrow>
      0 < RouteCompare T1 C' \<longrightarrow> 0 < RouteCompare T2 C' \<longrightarrow>
      RouteCompare T2 C' < RouteCompare T1 C'
      \<and> RouteCompare T1 C' = RouteCompare T2 C' + 1)
   \<and> RouteCompare (ParseRoute sha256 url_ken) (ParseRoute sha256 url_ken) = 10
   \<and> RouteCompare (ParseRoute sha256 url_username) (ParseRoute sha256 url_ken) = 9"
proof (intro conjI impI)
  assume p: "0 < RouteCompare T C"
  show "\<forall>(k, v) \<in> set (routeParams T). v \<noteq> ''?'' \<longrightarrow> index_map (routeParams C) k = v"
  proof (rule ballI)
    fix e
    assume e: "e \<in> set (routeParams T)"
    obtain k v where kv: "e = (k, v)" by (cases e)
    have "v \<noteq> ''?'' \<longrightarrow> index_map (routeParams C) k = v"
    proof
      assume "v \<noteq> ''?''"
      with p e [unfolded kv] show "index_map (routeParams C) k = v"
        by (rule RouteCompare_positive_literals)
    qed
    then show "case e of (k, v) \<Rightarrow> v \<noteq> ''?'' \<longrightarrow> index_map (routeParams C) k = v"
      by (simp only: kv prod.case)
  qed
  show "RouteCompare T C =
          int (length (filter (\<lambda>(k, v). v = ''?'') (routeParams T)))
          + 2 * int (length (filter (\<lambda>(k, v). v \<noteq> ''?'') (routeParams T)))"
    using p by (rule RouteCompare_positive_rank)
next
  assume a: "distinct (map fst (routeParams T1))" "distinct (map fst (routeParams T2))"
    "map_of (routeParams T1) pos = Some v" "v \<noteq> ''?''"
    "map_of (routeParams T2) = (map_of (routeParams T1))(pos \<mapsto> ''?'')"
    "0 < RouteCompare T1 C'" "0 < RouteCompare T2 C'"
  then have e: "RouteCompare T1 C' = RouteCompare T2 C' + 1"
    by (rule RouteCompare_literal_to_parameter)
  show "RouteCompare T1 C' = RouteCompare T2 C' + 1" by (rule e)
  show "RouteCompare T2 C' < RouteCompare T1 C'" by (simp only: e)
next
  show "RouteCompare (ParseRoute sha256 url_ken) (ParseRoute sha256 url_ken) = 10"
    by (rule RouteCompare_ken_ken)
  show "RouteCompare (ParseRoute sha256 url_username) (ParseRoute sha256 url_ken) = 9"
    by (rule RouteCompare_username_ken)
qed

theorem RouteCompare_specificity_witness:
  "0 < RouteCompare (ParseRoute id url_ken) (ParseRoute id url_ken)
   \<and> 0 < RouteCompare (ParseRoute id url_username) (ParseRoute id url_ken)
   \<and> map_of (routeParams (ParseRoute id url_ken)) 4 = Some ''ken''
   \<and> map_of (routeParams (ParseRoute id url_username)) 4 = Some ''?''
   \<and> RouteCompare (ParseRoute id url_username) (ParseRoute id url_ken)
       < RouteCompare (ParseRoute id url_ken) (ParseRoute id url_ken)
   \<and> RouteCompare (ParseRoute id url_ken) (ParseRoute id url_ken) =
       int (length (filter (\<lambda>(k, v). v = ''?'') (routeParams (ParseRoute id url_ken))))
       + 2 * int (length (filter (\<lambda>(k, v). v \<noteq> ''?'') (routeParams (ParseRoute id url_ken))))"
proof -
  let ?T1 = "ParseRoute id url_ken"
  let ?T2 = "ParseRoute id url_username"
  have p1: "0 < RouteCompare ?T1 ?T1" by (simp add: RouteCompare_ken_ken)
  have p2: "0 < RouteCompare ?T2 ?T1" by (simp add: RouteCompare_username_ken)
  have d1: "distinct (map fst (routeParams ?T1))" by (simp add: routeParams_ken)
  have d2: "distinct (map fst (routeParams ?T2))" by (simp add: routeParams_users_template)
  have v1: "map_of (routeParams ?T1) 4 = Some ''ken''" by (simp add: routeParams_ken)
  have v2: "map_of (routeParams ?T2) 4 = Some ''?''" by (simp add: routeParams_users_template)
  have n: "''ken'' \<noteq> ''?''" by simp
  have m: "map_of (routeParams ?T2) = (map_of (routeParams ?T1))(4 \<mapsto> ''?'')"
    by (rule ext) (simp add: routeParams_ken routeParams_users_template)
  show ?thesis
    using RouteCompare_specificity [of ?T1 ?T1 ?T1 ?T2 4 "''ken''" ?T1 id]
      p1 p2 d1 d2 v1 v2 n m
    by blast
qed

text \<open>
  C5. The tie-break of \<open>Find\<close>. If the bucket for the candidate's segment count holds,
  at index \<open>i\<close>, a template of positive score that no template of the bucket exceeds
  and that every template before it stays below, then \<open>Find\<close> returns the hash of that
  template: the first template to reach the maximal score wins, and a later template with
  an equal score does not replace it. The order of the bucket is the order of
  registration: \<open>Register\<close> of a URL whose hash is new appends its route to the end of
  its bucket.
\<close>

theorem Find_first_best:
  "(routes rt (len (routeParams (ParseRoute sha256 url))) = Some bucket \<longrightarrow>
      i < length bucket \<longrightarrow>
      0 < RouteCompare (bucket ! i) (ParseRoute sha256 url) \<longrightarrow>
      (\<forall>j < length bucket. RouteCompare (bucket ! j) (ParseRoute sha256 url)
                             \<le> RouteCompare (bucket ! i) (ParseRoute sha256 url)) \<longrightarrow>
      (\<forall>j < i. RouteCompare (bucket ! j) (ParseRoute sha256 url)
                 < RouteCompare (bucket ! i) (ParseRoute sha256 url)) \<longrightarrow>
      Find sha256 rt url = Inr (hash (bucket ! i), None))
   \<and> (configs rt' (hash (ParseRoute sha256 url')) = None \<longrightarrow>
      routes (Register sha256 url' conf rt') =
        (routes rt')(len (routeParams (ParseRoute sha256 url')) \<mapsto>
           (case routes rt' (len (routeParams (ParseRoute sha256 url'))) of
              None \<Rightarrow> [] | Some registered \<Rightarrow> registered) @ [ParseRoute sha256 url']))"
proof (intro conjI impI)
  let ?prt = "ParseRoute sha256 url"
  assume b: "routes rt (len (routeParams ?prt)) = Some bucket"
    and i: "i < length bucket"
    and pos: "0 < RouteCompare (bucket ! i) ?prt"
    and le: "\<forall>j < length bucket. RouteCompare (bucket ! j) ?prt \<le> RouteCompare (bucket ! i) ?prt"
    and lt: "\<forall>j < i. RouteCompare (bucket ! j) ?prt < RouteCompare (bucket ! i) ?prt"
  have nz: "RouteCompare (bucket ! i) ?prt \<noteq> 0" using pos by simp
  have ne: "\<forall>j < i. RouteCompare (bucket ! j) ?prt \<noteq> RouteCompare (bucket ! i) ?prt"
    using lt by (simp add: less_imp_neq)
  have "Find_range bucket ?prt 0 None = (RouteCompare (bucket ! i) ?prt, Some (bucket ! i))"
    using i pos nz le ne by (rule Find_range_first_best)
  with b have "Find sha256 rt url =
      (if RouteCompare (bucket ! i) ?prt = 0 then Inr ([], Some NO_MATCH_FOUND)
       else case Some (bucket ! i) of None \<Rightarrow> Inl NilPointerDereference
            | Some r \<Rightarrow> Inr (hash r, None))"
    by (rule Find_bucket)
  then show "Find sha256 rt url = Inr (hash (bucket ! i), None)"
    using nz by simp
next
  assume "configs rt' (hash (ParseRoute sha256 url')) = None"
  then show "routes (Register sha256 url' conf rt') =
        (routes rt')(len (routeParams (ParseRoute sha256 url')) \<mapsto>
           (case routes rt' (len (routeParams (ParseRoute sha256 url'))) of
              None \<Rightarrow> [] | Some registered \<Rightarrow> registered) @ [ParseRoute sha256 url'])"
    by (simp add: Register_new)
qed

theorem Find_first_best_witness:
  "routes table_tie (len (routeParams (ParseRoute id url_x_y)))
     = Some [ParseRoute id url_x_b, ParseRoute id url_a_y]
   \<and> RouteCompare (ParseRoute id url_x_b) (ParseRoute id url_x_y) = 3
   \<and> RouteCompare (ParseRoute id url_a_y) (ParseRoute id url_x_y) = 3
   \<and> Find id table_tie url_x_y = Inr (hash (ParseRoute id url_x_b), None)
   \<and> routes (Register id url_x_b ''first'' DefaultRouteTable)
       = [2 \<mapsto> [ParseRoute id url_x_b]]"
proof -
  let ?prt = "ParseRoute id url_x_y"
  let ?bucket = "[ParseRoute id url_x_b, ParseRoute id url_a_y]"
  have b: "routes table_tie (len (routeParams ?prt)) = Some ?bucket"
    by (simp add: table_tie_eq routeParams_a_b len_def)
  have i: "(0::nat) < length ?bucket" by simp
  have pos: "0 < RouteCompare (?bucket ! 0) ?prt" by (simp add: RouteCompare_tie)
  have le: "\<forall>j < length ?bucket. RouteCompare (?bucket ! j) ?prt \<le> RouteCompare (?bucket ! 0) ?prt"
    by (simp add: RouteCompare_tie less_Suc_eq)
  have lt: "\<forall>j < (0::nat). RouteCompare (?bucket ! j) ?prt < RouteCompare (?bucket ! 0) ?prt"
    by simp
  have c: "configs (DefaultRouteTable :: string RouteTable) (hash (ParseRoute id url_x_b)) = None"
    by (simp add: DefaultRouteTable_def)
  have "Find id table_tie url_x_y = Inr (hash (?bucket ! 0), None)"
    and "routes (Register id url_x_b ''first'' DefaultRouteTable)
       = (routes (DefaultRouteTable :: string RouteTable))
           (len (routeParams (ParseRoute id url_x_b)) \<mapsto>
             (case routes (DefaultRouteTable :: string RouteTable)
                     (len (routeParams (ParseRoute id url_x_b))) of
                None \<Rightarrow> [] | Some registered \<Rightarrow> registered) @ [ParseRoute id url_x_b])"
    using Find_first_best [of table_tie id url_x_y ?bucket 0 DefaultRouteTable url_x_b "''first''"]
      b i pos le lt c by blast+
  then show ?thesis
    using b by (simp add: RouteCompare_tie DefaultRouteTable_def routeParams_tie len_def)
qed

text \<open>
  C6. The outcomes of \<open>Find\<close>, in the order of its checks. The three error values are
  pairwise distinct. \<open>Find\<close> returns \<open>NO_URL_REGISTERED\<close> when the map \<open>routes\<close> is
  empty; otherwise \<open>HOST_NOT_REGISTERED\<close> when there is no bucket for the candidate's
  segment count; otherwise \<open>NO_MATCH_FOUND\<close> when every template of the bucket scores 0;
  otherwise the hash of a template of the bucket with a positive score that no template
  of the bucket exceeds, and the nil error. It never panics.
\<close>

theorem Find_outcomes:
  "distinct [NO_URL_REGISTERED, HOST_NOT_REGISTERED, NO_MATCH_FOUND]
   \<and> (if dom (routes rt) = {} then Find sha256 rt url = Inr ([], Some NO_URL_REGISTERED)
      else case routes rt (len (routeParams (ParseRoute sha256 url))) of
        None \<Rightarrow> Find sha256 rt url = Inr ([], Some HOST_NOT_REGISTERED)
      | Some bucket \<Rightarrow>
          if \<forall>t \<in> set bucket. RouteCompare t (ParseRoute sha256 url) = 0
          then Find sha256 rt url = Inr ([], Some NO_MATCH_FOUND)
          else \<exists>t \<in> set bucket.
                 0 < RouteCompare t (ParseRoute sha256 url)
                 \<and> (\<forall>u \<in> set bucket. RouteCompare u (ParseRoute sha256 url)
                                         \<le> RouteCompare t (ParseRoute sha256 url))
                 \<and> Find sha256 rt url = Inr (hash t, None))"
proof (rule conjI)
  show "distinct [NO_URL_REGISTERED, HOST_NOT_REGISTERED, NO_MATCH_FOUND]"
    by (simp add: NO_URL_REGISTERED_def HOST_NOT_REGISTERED_def NO_MATCH_FOUND_def)
next
  let ?prt = "ParseRoute sha256 url"
  show "if dom (routes rt) = {} then Find sha256 rt url = Inr ([], Some NO_URL_REGISTERED)
      else case routes rt (len (routeParams ?prt)) of
        None \<Rightarrow> Find sha256 rt url = Inr ([], Some HOST_NOT_REGISTERED)
      | Some bucket \<Rightarrow>
          if \<forall>t \<in> set bucket. RouteCompare t ?prt = 0
          then Find sha256 rt url = Inr ([], Some NO_MATCH_FOUND)
          else \<exists>t \<in> set bucket.
                 0 < RouteCompare t ?prt
                 \<and> (\<forall>u \<in> set bucket. RouteCompare u ?prt \<le> RouteCompare t ?prt)
                 \<and> Find sha256 rt url = Inr (hash t, None)"
  proof (cases "dom (routes rt) = {}")
    case True
    then show ?thesis by (simp add: Find_def)
  next
    case nonempty: False
    show ?thesis
    proof (cases "routes rt (len (routeParams ?prt))")
      case None
      then show ?thesis using nonempty by (simp add: Find_def Let_def)
    next
      case (Some bucket)
      show ?thesis
      proof (cases "\<forall>t \<in> set bucket. RouteCompare t ?prt = 0")
        case True
        then have "Find_range bucket ?prt 0 None = (0, None)" by (rule Find_range_none)
        then have "Find sha256 rt url = Inr ([], Some NO_MATCH_FOUND)"
          by (simp add: Find_bucket [OF Some])
        then show ?thesis
          unfolding if_not_P [OF nonempty] Some option.case if_P [OF True] .
      next
        case False
        then obtain i where i: "i < length bucket" "0 < RouteCompare (bucket ! i) ?prt"
          "\<forall>j < length bucket. RouteCompare (bucket ! j) ?prt \<le> RouteCompare (bucket ! i) ?prt"
          "Find_range bucket ?prt 0 None = (RouteCompare (bucket ! i) ?prt, Some (bucket ! i))"
          using Find_range_some [of bucket ?prt] by blast
        from Some i(4) have "Find sha256 rt url =
            (if RouteCompare (bucket ! i) ?prt = 0 then Inr ([], Some NO_MATCH_FOUND)
             else case Some (bucket ! i) of None \<Rightarrow> Inl NilPointerDereference
                  | Some r \<Rightarrow> Inr (hash r, None))"
          by (rule Find_bucket)
        then have f: "Find sha256 rt url = Inr (hash (bucket ! i), None)"
          using i(2) by simp
        have m: "bucket ! i \<in> set bucket" using i(1) by simp
        have le: "\<forall>u \<in> set bucket. RouteCompare u ?prt \<le> RouteCompare (bucket ! i) ?prt"
        proof
          fix u assume "u \<in> set bucket"
          then obtain j where "j < length bucket" "bucket ! j = u"
            by (auto simp: in_set_conv_nth)
          then show "RouteCompare u ?prt \<le> RouteCompare (bucket ! i) ?prt"
            using i(3) by blast
        qed
        have "\<exists>t \<in> set bucket. 0 < RouteCompare t ?prt
                 \<and> (\<forall>u \<in> set bucket. RouteCompare u ?prt \<le> RouteCompare t ?prt)
                 \<and> Find sha256 rt url = Inr (hash t, None)"
          using m i(2) le f by blast
        then show ?thesis
          unfolding if_not_P [OF nonempty] Some option.case if_not_P [OF False] .
      qed
    qed
  qed
qed

theorem Find_outcomes_witness:
  "Find id (DefaultRouteTable :: string RouteTable) url_ken = Inr ([], Some NO_URL_REGISTERED)
   \<and> Find id table_users url_ken_extra = Inr ([], Some HOST_NOT_REGISTERED)
   \<and> Find id table_users url_ken_json = Inr ([], Some NO_MATCH_FOUND)
   \<and> Find id table_users url_ken_cached_json = Inr (CreateHash id url_users_template, None)"
proof -
  have 1: "Find id (DefaultRouteTable :: string RouteTable) url_ken
            = Inr ([], Some NO_URL_REGISTERED)"
    using Find_outcomes [of DefaultRouteTable id url_ken, THEN conjunct2]
    by (simp add: DefaultRouteTable_def)
  have 2: "Find id table_users url_ken_extra = Inr ([], Some HOST_NOT_REGISTERED)"
    using Find_outcomes [of table_users id url_ken_extra, THEN conjunct2]
    by (simp add: table_users_eq routeParams_ken_extra len_def)
  have 3: "Find id table_users url_ken_json = Inr ([], Some NO_MATCH_FOUND)"
    using Find_outcomes [of table_users id url_ken_json, THEN conjunct2]
    by (simp add: table_users_eq routeParams_ken len_def RouteCompare_users_template)
  have 4: "Find id table_users url_ken_cached_json
            = Inr (CreateHash id url_users_template, None)"
    using Find_outcomes [of table_users id url_ken_cached_json, THEN conjunct2]
    by (simp add: table_users_eq routeParams_ken len_def RouteCompare_users_template
        hash_ParseRoute)
  show ?thesis using 1 2 3 4 by simp
qed

text \<open>
  C7. The hash of a URL is the hexadecimal encoding of the digest of its path, followed
  by \<open>?\<close> and the raw query only when the raw query is not empty; it is the \<open>hash\<close> of
  the route that \<open>ParseRoute\<close> builds. Two URLs with the same path and the same raw
  query have the same hash, whatever their hosts are. \<open>Register\<close> with a URL whose hash
  is already a key of \<open>configs\<close> returns the table unchanged, \<open>routes\<close> and
  \<open>configs\<close> alike. So a second registration of a URL with the same path and raw query
  changes nothing, and \<open>GetConfig\<close> still returns the configuration of the first.
\<close>

theorem Register_same_hash:
  "CreateHash sha256 url =
     EncodeToString (sha256 (Path url @ (if RawQuery url = [] then [] else ''?'' @ RawQuery url)))
   \<and> hash (ParseRoute sha256 url) = CreateHash sha256 url
   \<and> (Path url' = Path url \<longrightarrow> RawQuery url' = RawQuery url \<longrightarrow>
        CreateHash sha256 url' = CreateHash sha256 url)
   \<and> (configs rt (hash (ParseRoute sha256 url)) \<noteq> None \<longrightarrow>
        Register sha256 url conf rt = rt)
   \<and> (Path url' = Path url \<longrightarrow> RawQuery url' = RawQuery url \<longrightarrow>
        Register sha256 url' conf' (Register sha256 url conf rt')
          = Register sha256 url conf rt'
        \<and> (configs rt' (hash (ParseRoute sha256 url)) = None \<longrightarrow>
             GetConfig (Register sha256 url' conf' (Register sha256 url conf rt'))
               (hash (ParseRoute sha256 url')) = Some conf))"
proof (intro conjI impI)
  show "CreateHash sha256 url =
     EncodeToString (sha256 (Path url @ (if RawQuery url = [] then [] else ''?'' @ RawQuery url)))"
    by (simp add: CreateHash_def Let_def)
  show "hash (ParseRoute sha256 url) = CreateHash sha256 url"
    by (rule hash_ParseRoute)
next
  assume "Path url' = Path url" "RawQuery url' = RawQuery url"
  then show "CreateHash sha256 url' = CreateHash sha256 url"
    by (rule CreateHash_cong)
next
  assume "configs rt (hash (ParseRoute sha256 url)) \<noteq> None"
  then obtain c where "configs rt (hash (ParseRoute sha256 url)) = Some c" by blast
  then show "Register sha256 url conf rt = rt" by (rule Register_known)
next
  assume e: "Path url' = Path url" "RawQuery url' = RawQuery url"
  then have "CreateHash sha256 url' = CreateHash sha256 url"
    by (rule CreateHash_cong)
  then have h: "hash (ParseRoute sha256 url') = hash (ParseRoute sha256 url)"
    by (simp only: hash_ParseRoute)
  have "\<exists>c. configs (Register sha256 url conf rt') (hash (ParseRoute sha256 url)) = Some c"
  proof (cases "configs rt' (hash (ParseRoute sha256 url))")
    case None
    then show ?thesis by (simp add: Register_new)
  next
    case (Some c)
    then show ?thesis by (simp add: Register_known)
  qed
  then obtain c where
    "configs (Register sha256 url conf rt') (hash (ParseRoute sha256 url')) = Some c"
    using h by auto
  then show r: "Register sha256 url' conf' (Register sha256 url conf rt')
          = Register sha256 url conf rt'"
    by (rule Register_known)
  assume "configs rt' (hash (ParseRoute sha256 url)) = None"
  then have "configs (Register sha256 url conf rt') (hash (ParseRoute sha256 url)) = Some conf"
    by (simp add: Register_new)
  then show "GetConfig (Register sha256 url' conf' (Register sha256 url conf rt'))
               (hash (ParseRoute sha256 url')) = Some conf"
    by (simp only: r h GetConfig_def)
qed


theorem Register_same_hash_witness:
  "Path (url_users_template\<lparr>Host := ''other.example.org''\<rparr>) = Path url_users_template
   \<and> RawQuery (url_users_template\<lparr>Host := ''other.example.org''\<rparr>)
       = RawQuery url_users_template
   \<and> CreateHash id (url_users_template\<lparr>Host := ''other.example.org''\<rparr>)
       = CreateHash id url_users_template
   \<and> configs table_users (hash (ParseRoute id url_users_template)) = Some ''ttl''
   \<and> Register id url_users_template ''ttl'' table_users = table_users
   \<and> Register id (url_users_template\<lparr>Host := ''other.example.org''\<rparr>) ''other''
         (Register id url_users_template ''ttl'' DefaultRouteTable)
       = Register id url_users_template ''ttl'' DefaultRouteTable
   \<and> GetConfig (Register id (url_users_template\<lparr>Host := ''other.example.org''\<rparr>) ''other''
                  (Register id url_users_template ''ttl'' DefaultRouteTable))
         (hash (ParseRoute id (url_users_template\<lparr>Host := ''other.example.org''\<rparr>)))
       = Some ''ttl''"
proof -
  let ?url = "url_users_template"
  let ?other = "url_users_template\<lparr>Host := ''other.example.org''\<rparr>"
  let ?empty = "DefaultRouteTable :: string RouteTable"
  have h1: "Path ?other = Path ?url" by simp
  have h2: "RawQuery ?other = RawQuery ?url" by simp
  have h3: "configs table_users (hash (ParseRoute id ?url)) = Some ''ttl''"
    by (simp add: table_users_eq hash_ParseRoute)
  then have h4: "configs table_users (hash (ParseRoute id ?url)) \<noteq> None" by simp
  have h5: "configs ?empty (hash (ParseRoute id ?url)) = None"
    by (simp add: DefaultRouteTable_def)
  note t = Register_same_hash [of id ?url ?other table_users "''ttl''" "''other''" ?empty]
  have c3: "CreateHash id ?other = CreateHash id ?url"
    using t h1 h2 by blast
  have c4: "Register id ?url ''ttl'' table_users = table_users"
    using t h4 by blast
  have c5: "Register id ?other ''other'' (Register id ?url ''ttl'' ?empty)
              = Register id ?url ''ttl'' ?empty"
    using t h1 h2 by blast
  have c6: "GetConfig (Register id ?other ''other'' (Register id ?url ''ttl'' ?empty))
              (hash (ParseRoute id ?other)) = Some ''ttl''"
    using t h1 h2 h5 by blast
  show ?thesis using h1 h2 h3 c3 c4 c5 c6 by (intro conjI)
qed

text \<open>
  C8. \<open>ParseRoute\<close> stores, under every key of \<open>url.Query()\<close>, the values of that key
  sorted in descending order and joined with commas: the sorted values are a permutation
  of the values in which no value is greater than an earlier one. Two URLs whose queries
  give every key the same multiset of values, in any order, therefore have the same
  \<open>queryParams\<close> map, and the query loop of \<open>RouteCompare\<close> accepts each against the
  other. The queries \<open>tag=b&tag=a\<close> and \<open>tag=a&tag=b\<close> both give \<open>tag\<close> the value
  \<open>b,a\<close>, and their routes match.
\<close>

theorem ParseRoute_query_normalized:
  "(distinct (map fst (Query url)) \<longrightarrow>
      queryParams (ParseRoute sha256 url) =
        map (\<lambda>(key, value). (key, Join (sort_Slice (\<lambda>a b. a > b) value) '','')) (Query url))
   \<and> sorted_wrt (\<lambda>a b. a \<ge> b) (sort_Slice (\<lambda>a b. a > b) (vs :: string list))
   \<and> mset (sort_Slice (\<lambda>a b. a > b) vs) = mset vs
   \<and> (distinct (map fst (Query url1)) \<longrightarrow> distinct (map fst (Query url2)) \<longrightarrow>
      (\<forall>key. map_option mset (map_of (Query url1) key)
               = map_option mset (map_of (Query url2) key)) \<longrightarrow>
      map_of (queryParams (ParseRoute sha256 url1)) = map_of (queryParams (ParseRoute sha256 url2))
      \<and> RouteCompare_query (queryParams (ParseRoute sha256 url1)) (ParseRoute sha256 url2) rank
          = rank
      \<and> RouteCompare_query (queryParams (ParseRoute sha256 url2)) (ParseRoute sha256 url1) rank
          = rank)
   \<and> queryParams (ParseRoute sha256 url_tag_b_a) = [(''tag'', ''b,a'')]
   \<and> queryParams (ParseRoute sha256 url_tag_a_b) = [(''tag'', ''b,a'')]
   \<and> RouteCompare (ParseRoute sha256 url_tag_a_b) (ParseRoute sha256 url_tag_b_a) = 2"
proof (intro conjI impI)
  assume "distinct (map fst (Query url))"
  then show "queryParams (ParseRoute sha256 url) =
        map (\<lambda>(key, value). (key, Join (sort_Slice (\<lambda>a b. a > b) value) '','')) (Query url)"
    by (rule queryParams_ParseRoute)
next
  show "sorted_wrt (\<lambda>a b. a \<ge> b) (sort_Slice (\<lambda>a b. a > b) vs)"
    by (rule sorted_wrt_sort_Slice)
  show "mset (sort_Slice (\<lambda>a b. a > b) vs) = mset vs"
    by (rule mset_sort_Slice)
next
  assume d1: "distinct (map fst (Query url1))" and d2: "distinct (map fst (Query url2))"
    and m: "\<forall>key. map_option mset (map_of (Query url1) key)
                  = map_option mset (map_of (Query url2) key)"
  show e: "map_of (queryParams (ParseRoute sha256 url1))
         = map_of (queryParams (ParseRoute sha256 url2))"
    using d1 d2 m by (rule map_of_queryParams_mset_cong)
  show "RouteCompare_query (queryParams (ParseRoute sha256 url1)) (ParseRoute sha256 url2) rank
          = rank"
    using distinct_queryParams_ParseRoute [OF d1] e [symmetric]
    by (rule RouteCompare_query_same_map)
  show "RouteCompare_query (queryParams (ParseRoute sha256 url2)) (ParseRoute sha256 url1) rank
          = rank"
    using distinct_queryParams_ParseRoute [OF d2] e
    by (rule RouteCompare_query_same_map)
next
  show "queryParams (ParseRoute sha256 url_tag_b_a) = [(''tag'', ''b,a'')]"
    by (rule queryParams_tag)
  show "queryParams (ParseRoute sha256 url_tag_a_b) = [(''tag'', ''b,a'')]"
    by (rule queryParams_tag)
  show "RouteCompare (ParseRoute sha256 url_tag_a_b) (ParseRoute sha256 url_tag_b_a) = 2"
    by (rule RouteCompare_tag)
qed

theorem ParseRoute_query_normalized_witness:
  "distinct (map fst (Query url_tag_b_a))
   \<and> distinct (map fst (Query url_tag_a_b))
   \<and> queryParams (ParseRoute id url_tag_b_a) = [(''tag'', ''b,a'')]
   \<and> map_of (queryParams (ParseRoute id url_tag_b_a))
       = map_of (queryParams (ParseRoute id url_tag_a_b))
   \<and> RouteCompare_query (queryParams (ParseRoute id url_tag_b_a)) (ParseRoute id url_tag_a_b) 2
       = 2"
proof -
  have d1: "distinct (map fst (Query url_tag_b_a))" by (simp add: url_tag_b_a_def)
  have d2: "distinct (map fst (Query url_tag_a_b))" by (simp add: url_tag_a_b_def)
  have m: "\<forall>key. map_option mset (map_of (Query url_tag_b_a) key)
                  = map_option mset (map_of (Query url_tag_a_b) key)"
    by (simp add: url_tag_b_a_def url_tag_a_b_def)
  note t = ParseRoute_query_normalized [of url_tag_b_a id "[''b'', ''a'']" url_tag_b_a url_tag_a_b 2]
  have q: "queryParams (ParseRoute id url_tag_b_a) =
        map (\<lambda>(key, value). (key, Join (sort_Slice (\<lambda>a b. a > b) value) '',''))
          (Query url_tag_b_a)"
    using t d1 by blast
  have e: "map_of (queryParams (ParseRoute id url_tag_b_a))
       = map_of (queryParams (ParseRoute id url_tag_a_b))"
    and r: "RouteCompare_query (queryParams (ParseRoute id url_tag_b_a))
       (ParseRoute id url_tag_a_b) 2 = 2"
    using t d1 d2 m by blast+
  have "queryParams (ParseRoute id url_tag_b_a) = [(''tag'', ''b,a'')]"
    unfolding q by (simp add: url_tag_b_a_def)
  then show ?thesis using d1 d2 e r by (intro conjI)
qed

text \<open>
  C9, as the code has it. \<open>ParseRoute\<close> stores every non-empty piece of the path under
  its index in the split of the path at \<open>/\<close> (the sentinel \<open>?\<close> for a piece that starts
  with a colon), and stores nothing for an empty piece. The split of \<open>/a//b\<close> is the four
  pieces \<open>""\<close>, \<open>a\<close>, \<open>""\<close>, \<open>b\<close>, the first being the empty piece before the leading
  slash: the segment map of \<open>/a//b\<close> holds exactly \<open>a\<close> at position 1 and \<open>b\<close> at
  position 3, and nothing at positions 0 and 2.

  The reading that puts \<open>a\<close> at position 0 and \<open>b\<close> at position 2, with nothing at
  position 1, is refuted after the theorem.
\<close>

theorem ParseRoute_segment_positions:
  "routeParams (ParseRoute sha256 url) =
     [(int i, if HasPrefix s '':'' then ''?'' else s).
        (i, s) \<leftarrow> enumerate 0 (Split (Path url) CHR ''/''), s \<noteq> []]
   \<and> Split (Path url_a__b) CHR ''/'' = [[], ''a'', [], ''b'']
   \<and> routeParams (ParseRoute sha256 url_a__b) = [(1, ''a''), (3, ''b'')]
   \<and> map_of (routeParams (ParseRoute sha256 url_a__b)) 0 = None
   \<and> map_of (routeParams (ParseRoute sha256 url_a__b)) 2 = None"
  by (simp add: routeParams_ParseRoute [of sha256 url] routeParams_a__b)
     (simp add: url_a__b_def Split_a__b)

theorem ParseRoute_segment_positions_witness:
  "routeParams (ParseRoute id url_x__y) = [(1, ''x''), (3, ''y'')]"
proof -
  have "routeParams (ParseRoute id url_x__y) =
     [(int i, if HasPrefix s '':'' then ''?'' else s).
        (i, s) \<leftarrow> enumerate 0 (Split (Path url_x__y) CHR ''/''), s \<noteq> []]"
    using ParseRoute_segment_positions [of id url_x__y] by (rule conjunct1)
  then show ?thesis by (simp add: url_x__y_def Split_def HasPrefix_def)
qed

theorem ParseRoute_segment_positions_counterexample:
  "map_of (routeParams (ParseRoute id url_a__b)) 0 \<noteq> Some ''a''
   \<and> map_of (routeParams (ParseRoute id url_a__b)) 2 \<noteq> Some ''b''
   \<and> map_of (routeParams (ParseRoute id url_a__b)) 1 \<noteq> None"
  by (simp add: routeParams_a__b)

text \<open>
  C10. A parameter slot of the template adds 1 without reading the candidate's segment
  map at that position: two candidates with as many segments and the same query
  parameters, which agree at the positions of the template's literals, get the same
  score. So routes with equal segment counts and different occupied positions can match:
  the template of \<open>/:a/:b\<close> (positions 1 and 2) scores 2 against the candidate of
  \<open>/x//y\<close> (positions 1 and 3), which has no segment at position 2.
\<close>

theorem RouteCompare_parameter_slot_unchecked:
  "(len (routeParams C') = len (routeParams C) \<longrightarrow> queryParams C' = queryParams C \<longrightarrow>
      (\<forall>(k, v) \<in> set (routeParams T). v \<noteq> ''?'' \<longrightarrow>
         index_map (routeParams C') k = index_map (routeParams C) k) \<longrightarrow>
      RouteCompare T C' = RouteCompare T C)
   \<and> routeParams (ParseRoute sha256 url_a_b) = [(1, ''?''), (2, ''?'')]
   \<and> routeParams (ParseRoute sha256 url_x__y) = [(1, ''x''), (3, ''y'')]
   \<and> len (routeParams (ParseRoute sha256 url_a_b)) = len (routeParams (ParseRoute sha256 url_x__y))
   \<and> map_of (routeParams (ParseRoute sha256 url_x__y)) 2 = None
   \<and> RouteCompare (ParseRoute sha256 url_a_b) (ParseRoute sha256 url_x__y) = 2"
proof (intro conjI impI)
  assume l: "len (routeParams C') = len (routeParams C)"
    and q: "queryParams C' = queryParams C"
    and r: "\<forall>(k, v) \<in> set (routeParams T). v \<noteq> ''?'' \<longrightarrow>
         index_map (routeParams C') k = index_map (routeParams C) k"
  have "RouteCompare_segments (routeParams T) C' 0 = RouteCompare_segments (routeParams T) C 0"
    using r by (rule RouteCompare_segments_cong)
  then show "RouteCompare T C' = RouteCompare T C"
    by (simp add: RouteCompare_def RouteCompare_query_eq l q)
qed (simp_all add: routeParams_a_b queryParams_a_b RouteCompare_def len_def)

theorem RouteCompare_parameter_slot_unchecked_witness:
  "len (routeParams (ParseRoute id url_x__y)) = len (routeParams (ParseRoute id url_x_y))
   \<and> queryParams (ParseRoute id url_x__y) = queryParams (ParseRoute id url_x_y)
   \<and> RouteCompare (ParseRoute id url_a_b) (ParseRoute id url_x__y)
       = RouteCompare (ParseRoute id url_a_b) (ParseRoute id url_x_y)
   \<and> RouteCompare (ParseRoute id url_a_b) (ParseRoute id url_x__y) = 2"
proof -
  let ?T = "ParseRoute id url_a_b"
  let ?C = "ParseRoute id url_x_y"
  let ?C' = "ParseRoute id url_x__y"
  have l: "len (routeParams ?C') = len (routeParams ?C)"
    by (simp add: routeParams_a_b len_def)
  have q: "queryParams ?C' = queryParams ?C"
    by (simp add: queryParams_a_b)
  have r: "\<forall>(k, v) \<in> set (routeParams ?T). v \<noteq> ''?'' \<longrightarrow>
         index_map (routeParams ?C') k = index_map (routeParams ?C) k"
    by (simp add: routeParams_a_b)
  show ?thesis
    using RouteCompare_parameter_slot_unchecked [of ?C' ?C ?T id] l q r
    by blast
qed

end
